theory Spec2Isabelle
  imports Complex_Main "HOL-Library.Multiset"
begin

section \<open>Face tracking by detection (scripts/pyannote-face.py)\<close>

text \<open>
  The script aligns two precomputed streams (shot boundaries, face detections) with the
  frame clock of a video through two coroutines, and tracks faces frame by frame.
  Timestamps, confidences and areas are Python floats; they are only compared, doubled
  and subtracted here, and are modelled as \<^typ>\<open>real\<close> (no NaN, no rounding).
  Identifiers are Python ints, modelled as \<^typ>\<open>int\<close>.
\<close>

subsection \<open>Exceptions\<close>

text \<open>
  The exceptions the tracking code can raise: a finished generator that is sent a value
  raises StopIteration, a missing dictionary key or set element raises KeyError, and a
  method call on None raises AttributeError.
\<close>

datatype error = StopIteration | KeyError | AttributeError

subsection \<open>getShotGenerator\<close>

text \<open>
  The coroutine is modelled by the point at which it is suspended, with the lines of the
  shot file that are still unread (each already parsed by float):
  \<^item> \<open>ShotStart\<close>: at the first \<open>t = yield\<close> (line 67), after the priming send(None);
  \<^item> \<open>ShotWait T\<close>: at \<open>t = yield\<close> (line 77), the boundary T being still ahead of t;
  \<^item> \<open>ShotFound\<close>: at \<open>t = yield T\<close> (line 81);
  \<^item> \<open>ShotDone\<close>: the generator function has returned.
\<close>

datatype shot_gen =
    ShotStart "real list"
  | ShotWait real "real list"
  | ShotFound "real list"
  | ShotDone

text \<open>The body of \<open>while True\<close> (lines 74 to 82), up to the next yield.\<close>

definition shot_while :: "real \<Rightarrow> real list \<Rightarrow> real \<Rightarrow> (error + real option) \<times> shot_gen" where
  "shot_while T ls t =
     (if T > t then (Inr None, ShotWait T ls)
      else (Inr (Some T), ShotFound ls))"

text \<open>
  \<open>for line in f\<close> (line 71): with no line left the function body ends, and the pending
  send raises StopIteration.
\<close>

fun shot_for :: "real list \<Rightarrow> real \<Rightarrow> (error + real option) \<times> shot_gen" where
  "shot_for [] t = (Inl StopIteration, ShotDone)"
| "shot_for (T # ls) t = shot_while T ls t"

text \<open>\<open>shotGenerator.send(t)\<close>: the value yielded (or the exception), and the new state.\<close>

fun shot_send :: "shot_gen \<Rightarrow> real \<Rightarrow> (error + real option) \<times> shot_gen" where
  "shot_send (ShotStart ls) t = shot_for ls t"
| "shot_send (ShotWait T ls) t = shot_while T ls t"
| "shot_send (ShotFound ls) t = shot_for ls t"
| "shot_send ShotDone t = (Inl StopIteration, ShotDone)"

text \<open>The values returned by successive sends of a sequence of driving timestamps.\<close>

fun shot_sends :: "shot_gen \<Rightarrow> real list \<Rightarrow> (error + real option) list" where
  "shot_sends g [] = []"
| "shot_sends g (t # ts) = (case shot_send g t of (r, g') \<Rightarrow> r # shot_sends g' ts)"

text \<open>\<open>if shot:\<close> (line 208): None and 0.0 are false, every other float is true.\<close>

fun truthy :: "real option \<Rightarrow> bool" where
  "truthy None = False"
| "truthy (Some T) = (T \<noteq> 0)"

subsection \<open>getFaceGenerator\<close>

text \<open>
  A line of the detection file, parsed (lines 100 to 103): time, identifier and box
  (the confidence column is not read).
\<close>

type_synonym 'box face_line = "real \<times> int \<times> 'box"

text \<open>
  The suspension points of the coroutine:
  \<^item> \<open>FaceStart\<close>: at the first \<open>t = yield\<close> (line 89), nothing read yet;
  \<^item> \<open>FaceWait currentT faces (T, identifier, face)\<close>: at \<open>t = yield t, []\<close> (line 120),
    holding the loaded group and the line that ended it;
  \<^item> \<open>FaceGot (T, identifier, face)\<close>: at \<open>t = yield currentT, faces\<close> (line 124);
  \<^item> \<open>FaceEnd\<close>: at \<open>t = yield t, []\<close> (line 132), the file being exhausted.
\<close>

datatype 'box face_gen =
    FaceStart "'box face_line list"
  | FaceWait real "(int \<times> 'box) list" "'box face_line" "'box face_line list"
  | FaceGot "'box face_line" "'box face_line list"
  | FaceEnd

text \<open>The body of \<open>while True\<close> (lines 116 to 129), up to the next yield.\<close>

definition face_while ::
  "real \<Rightarrow> (int \<times> 'box) list \<Rightarrow> 'box face_line \<Rightarrow> 'box face_line list \<Rightarrow> real
     \<Rightarrow> (real \<times> (int \<times> 'box) list) \<times> 'box face_gen" where
  "face_while currentT faces nxt ls t =
     (if currentT > t then ((t, []), FaceWait currentT faces nxt ls)
      else ((currentT, faces), FaceGot nxt ls))"

text \<open>
  \<open>for line in f\<close> (lines 96 to 129) with the local variables \<open>faces\<close> and \<open>currentT\<close>;
  after the loop, the first \<open>yield t, []\<close> of line 132.
\<close>

fun face_for ::
  "(int \<times> 'box) list \<Rightarrow> real option \<Rightarrow> 'box face_line list \<Rightarrow> real
     \<Rightarrow> (real \<times> (int \<times> 'box) list) \<times> 'box face_gen" where
  "face_for faces currentT [] t = ((t, []), FaceEnd)"
| "face_for faces currentT ((T, identifier, face) # ls) t =
     (case currentT of
        None \<Rightarrow> face_for (faces @ [(identifier, face)]) (Some T) ls t
      | Some c \<Rightarrow>
          if T = c then face_for (faces @ [(identifier, face)]) (Some T) ls t
          else face_while c faces (T, identifier, face) ls t)"

text \<open>\<open>faceGenerator.send(t)\<close>: the pair yielded, and the new state.\<close>

fun face_send ::
  "'box face_gen \<Rightarrow> real \<Rightarrow> (real \<times> (int \<times> 'box) list) \<times> 'box face_gen" where
  "face_send (FaceStart ls) t = face_for [] None ls t"
| "face_send (FaceWait currentT faces nxt ls) t = face_while currentT faces nxt ls t"
| "face_send (FaceGot (T, identifier, face) ls) t = face_for [(identifier, face)] (Some T) ls t"
| "face_send FaceEnd t = ((t, []), FaceEnd)"

fun face_sends :: "'box face_gen \<Rightarrow> real list \<Rightarrow> (real \<times> (int \<times> 'box) list) list" where
  "face_sends g [] = []"
| "face_sends g (t # ts) = (case face_send g t of (r, g') \<Rightarrow> r # face_sends g' ts)"

subsection \<open>External collaborators\<close>

text \<open>
  dlib's correlation tracker and rectangles and the Munkres solver are libraries, not
  code of the script; the tracking loop is modelled over their operations, given as a
  record of functions. A tracker object is mutated in place by \<open>start_track\<close> and
  \<open>update\<close>; here both return the new tracker state, which the caller stores back.
  \<open>intersect_area p q\<close> stands for \<open>p.intersect(q).area()\<close>.
\<close>

record ('img, 'box, 'trk) externals =
  correlation_tracker :: 'trk
  start_track :: "'trk \<Rightarrow> 'img \<Rightarrow> 'box \<Rightarrow> 'trk"
  tracker_update :: "'trk \<Rightarrow> 'img \<Rightarrow> 'trk \<times> real"
  get_position :: "'trk \<Rightarrow> 'box"
  intersect_area :: "'box \<Rightarrow> 'box \<Rightarrow> real"
  area :: "'box \<Rightarrow> real"
  box_left :: "'box \<Rightarrow> real"
  box_top :: "'box \<Rightarrow> real"
  box_right :: "'box \<Rightarrow> real"
  box_bottom :: "'box \<Rightarrow> real"
  hungarian_compute :: "real list list \<Rightarrow> (nat \<times> nat) list"

subsection \<open>Output records\<close>

text \<open>Python's \<open>int(x)\<close> on a float truncates towards zero.\<close>

definition py_int :: "real \<Rightarrow> int" where
  "py_int x = (if 0 \<le> x then \<lfloor>x\<rfloor> else \<lceil>x\<rceil>)"

text \<open>
  A line written with FACE_TEMPLATE, before formatting: time, identifier, the four
  coordinates truncated by \<open>int\<close>, confidence.
\<close>

datatype face_record =
  FaceRecord (rec_t: real) (rec_identifier: int)
    (rec_left: int) (rec_top: int) (rec_right: int) (rec_bottom: int)
    (rec_confidence: real)

definition face_template ::
  "('img, 'box, 'trk) externals \<Rightarrow> real \<Rightarrow> int \<Rightarrow> real \<Rightarrow> 'box \<Rightarrow> face_record" where
  "face_template ext t i c face =
     FaceRecord t i (py_int (box_left ext face)) (py_int (box_top ext face))
       (py_int (box_right ext face)) (py_int (box_bottom ext face)) c"

subsection \<open>The state of track\<close>

text \<open>
  The local variables of \<open>track\<close> that live across frames. The dictionary \<open>trackers\<close> is
  an association list, since the code enumerates it and indexes the enumeration; new keys
  are appended (the iteration order of a Python 2 dict is implementation-defined, and
  nothing below depends on which order it is beyond its being the same within a frame).
  \<open>foutput\<close> holds the lines written so far.
\<close>

record ('box, 'trk) tracking =
  shotGenerator :: shot_gen
  faceGenerator :: "'box face_gen"
  trackers :: "(int \<times> 'trk) list"
  confidences :: "int \<rightharpoonup> real"
  "identifier" :: int
  foutput :: "face_record list"

text \<open>\<open>d[k] = v\<close> on the association list: replace the value of an existing key, else append.\<close>

fun dict_set :: "('k \<times> 'v) list \<Rightarrow> 'k \<Rightarrow> 'v \<Rightarrow> ('k \<times> 'v) list" where
  "dict_set [] k v = [(k, v)]"
| "dict_set ((k', v') # kvs) k v =
     (if k' = k then (k, v) # kvs else (k', v') # dict_set kvs k v)"

subsection \<open>Updating the trackers (lines 217 to 219)\<close>

fun update_trackers ::
  "('img, 'box, 'trk) externals \<Rightarrow> 'img \<Rightarrow> (int \<times> 'trk) list \<Rightarrow> (int \<rightharpoonup> real)
     \<Rightarrow> (int \<times> 'trk) list \<times> (int \<rightharpoonup> real)" where
  "update_trackers ext gray [] conf = ([], conf)"
| "update_trackers ext gray ((i, tracker) # rest) conf =
     (case tracker_update ext tracker gray of (tracker', c) \<Rightarrow>
        (case update_trackers ext gray rest (conf(i \<mapsto> c)) of (rest', conf') \<Rightarrow>
           ((i, tracker') # rest', conf')))"

subsection \<open>The overlap matrix and the cost matrix (lines 226 to 236)\<close>

text \<open>\<open>np.zeros((N, N))\<close>.\<close>

definition np_zeros :: "nat \<Rightarrow> real list list" where
  "np_zeros N = replicate N (replicate N 0)"

text \<open>
  The inner loop \<open>for f, (_, face) in enumerate(faces): areas[t, f] = ...\<close>, \<open>f\<close> being the
  index of the first face of the list. Both indices are below N where the loops run.
\<close>

fun fill_row ::
  "('img, 'box, 'trk) externals \<Rightarrow> 'box \<Rightarrow> nat \<Rightarrow> nat \<Rightarrow> (int \<times> 'box) list
     \<Rightarrow> real list list \<Rightarrow> real list list" where
  "fill_row ext position t f [] areas = areas"
| "fill_row ext position t f ((_, face) # faces) areas =
     fill_row ext position t (Suc f) faces
       (areas[t := (areas ! t)[f := intersect_area ext position face]])"

text \<open>The outer loop \<open>for t, (i, tracker) in enumerate(trackers_)\<close>.\<close>

fun fill_areas ::
  "('img, 'box, 'trk) externals \<Rightarrow> nat \<Rightarrow> (int \<times> 'trk) list \<Rightarrow> (int \<times> 'box) list
     \<Rightarrow> real list list \<Rightarrow> real list list" where
  "fill_areas ext t [] faces areas = areas"
| "fill_areas ext t ((i, tracker) # rest) faces areas =
     fill_areas ext (Suc t) rest faces
       (fill_row ext (get_position ext tracker) t 0 faces areas)"

definition overlap_areas ::
  "('img, 'box, 'trk) externals \<Rightarrow> (int \<times> 'trk) list \<Rightarrow> (int \<times> 'box) list \<Rightarrow> real list list" where
  "overlap_areas ext trks faces =
     (let Nt = length trks; Nf = length faces; N = max Nt Nf
      in fill_areas ext 0 trks faces (np_zeros N))"

text \<open>\<open>np.max(areas)\<close> and \<open>np.max(areas) - areas\<close>.\<close>

definition np_max :: "real list list \<Rightarrow> real" where
  "np_max areas = Max (set (concat areas))"

definition cost_matrix :: "real list list \<Rightarrow> real list list" where
  "cost_matrix areas = map (map (\<lambda>a. np_max areas - a)) areas"

subsection \<open>Applying the assignment (lines 238 to 262)\<close>

text \<open>
  The loop works on the enumeration \<open>trackers_\<close> (the list that \<open>items()\<close> returns in
  Python 2, which the script is written for; its tracker objects are those of the
  dictionary), the set \<open>unmatched\<close>, the list \<open>faces\<close>, in which a matched face becomes
  \<open>(None, None)\<close> (here \<open>None\<close>), and the output. A second visit of a consumed face
  raises AttributeError at \<open>face.area()\<close>, a second removal of a key from \<open>unmatched\<close>
  raises KeyError. One iteration:
\<close>

type_synonym ('box, 'trk) matching =
  "(int \<times> 'trk) list \<times> int set \<times> (int \<times> 'box) option list \<times> face_record list"

fun match_pair ::
  "('img, 'box, 'trk) externals \<Rightarrow> 'img \<Rightarrow> real \<Rightarrow> real list list \<Rightarrow> nat \<Rightarrow> nat
     \<Rightarrow> (int \<rightharpoonup> real) \<Rightarrow> nat \<times> nat \<Rightarrow> ('box, 'trk) matching
     \<Rightarrow> error + ('box, 'trk) matching" where
  "match_pair ext gray T areas Nt Nf conf (t, f) (trks, unmatched, faces, out) =
     (if t \<ge> Nt \<or> f \<ge> Nf then Inr (trks, unmatched, faces, out)
      else
        (let a = areas ! t ! f in
         (case faces ! f of
            None \<Rightarrow> Inl AttributeError
          | Some (_, face) \<Rightarrow>
              (let faceArea = area ext face;
                   (i, tracker) = trks ! t;
                   trackerArea = area ext (get_position ext tracker)
               in if 2 * a > faceArea \<or> 2 * a > trackerArea then
                    (if i \<notin> unmatched then Inl KeyError
                     else
                       (case conf i of
                          None \<Rightarrow> Inl KeyError
                        | Some c \<Rightarrow>
                            Inr (trks[t := (i, start_track ext tracker gray face)],
                                 unmatched - {i},
                                 faces[f := None],
                                 out @ [face_template ext T i c face])))
                  else Inr (trks, unmatched, faces, out)))))"

fun match_pairs ::
  "('img, 'box, 'trk) externals \<Rightarrow> 'img \<Rightarrow> real \<Rightarrow> real list list \<Rightarrow> nat \<Rightarrow> nat
     \<Rightarrow> (int \<rightharpoonup> real) \<Rightarrow> (nat \<times> nat) list \<Rightarrow> ('box, 'trk) matching
     \<Rightarrow> error + ('box, 'trk) matching" where
  "match_pairs ext gray T areas Nt Nf conf [] S = Inr S"
| "match_pairs ext gray T areas Nt Nf conf (tf # mapping) S =
     (case match_pair ext gray T areas Nt Nf conf tf S of
        Inl e \<Rightarrow> Inl e
      | Inr S' \<Rightarrow> match_pairs ext gray T areas Nt Nf conf mapping S')"

text \<open>
  Lines 221 to 262: the set \<open>unmatched\<close>, and under \<open>if Nt and Nf\<close> the overlap matrix,
  the solver and the loop over its pairs. Without a tracker or without a face nothing of
  this runs.
\<close>

definition match_faces ::
  "('img, 'box, 'trk) externals \<Rightarrow> 'img \<Rightarrow> real \<Rightarrow> (int \<times> 'box) list
     \<Rightarrow> (int \<times> 'trk) list \<Rightarrow> (int \<rightharpoonup> real) \<Rightarrow> face_record list
     \<Rightarrow> error + ('box, 'trk) matching" where
  "match_faces ext gray T faces trks conf out =
     (let unmatched = set (map fst trks);
          Nt = length trks;
          Nf = length faces
      in if Nt \<noteq> 0 \<and> Nf \<noteq> 0 then
           (let areas = overlap_areas ext trks faces;
                mapping = hungarian_compute ext (cost_matrix areas)
            in match_pairs ext gray T areas Nt Nf conf mapping
                 (trks, unmatched, map Some faces, out))
         else Inr (trks, unmatched, map Some faces, out))"

subsection \<open>New trackers (lines 264 to 280)\<close>

fun spawn_faces ::
  "('img, 'box, 'trk) externals \<Rightarrow> 'img \<Rightarrow> real \<Rightarrow> (int \<times> 'box) option list
     \<Rightarrow> (int \<times> 'trk) list \<times> (int \<rightharpoonup> real) \<times> int \<times> face_record list
     \<Rightarrow> (int \<times> 'trk) list \<times> (int \<rightharpoonup> real) \<times> int \<times> face_record list" where
  "spawn_faces ext gray T [] S = S"
| "spawn_faces ext gray T (None # faces) S = spawn_faces ext gray T faces S"
| "spawn_faces ext gray T (Some (_, face) # faces) (trks, conf, ident, out) =
     (let ident' = ident + 1;
          tracker = start_track ext (correlation_tracker ext) gray face;
          (tracker', c) = tracker_update ext tracker gray
      in spawn_faces ext gray T faces
           (dict_set trks ident' tracker', conf(ident' \<mapsto> c), ident',
            out @ [face_template ext T ident' 0 face]))"

subsection \<open>Unmatched trackers (lines 282 to 292)\<close>

fun coast ::
  "('img, 'box, 'trk) externals \<Rightarrow> real \<Rightarrow> int set \<Rightarrow> (int \<rightharpoonup> real)
     \<Rightarrow> (int \<times> 'trk) list \<Rightarrow> face_record list \<Rightarrow> error + face_record list" where
  "coast ext T unmatched conf [] out = Inr out"
| "coast ext T unmatched conf ((i, tracker) # rest) out =
     (if i \<notin> unmatched then coast ext T unmatched conf rest out
      else case conf i of
        None \<Rightarrow> Inl KeyError
      | Some c \<Rightarrow>
          coast ext T unmatched conf rest
            (out @ [face_template ext T i c (get_position ext tracker)]))"

subsection \<open>One frame (lines 201 to 292)\<close>

text \<open>Lines 205 to 210: the shot generator is sent the timestamp; a true value clears.\<close>

definition shot_check ::
  "('box, 'trk) tracking \<Rightarrow> real \<Rightarrow> error + ('box, 'trk) tracking" where
  "shot_check st timestamp =
     (case shot_send (shotGenerator st) timestamp of
        (Inl e, g') \<Rightarrow> Inl e
      | (Inr shot, g') \<Rightarrow>
          Inr (if truthy shot
               then st\<lparr>shotGenerator := g', trackers := [], confidences := Map.empty\<rparr>
               else st\<lparr>shotGenerator := g'\<rparr>))"

text \<open>Lines 217 to 292, for the faces \<open>(T, faces)\<close> the face generator returned.\<close>

definition track_faces ::
  "('img, 'box, 'trk) externals \<Rightarrow> 'img \<Rightarrow> real \<Rightarrow> (int \<times> 'box) list
     \<Rightarrow> ('box, 'trk) tracking \<Rightarrow> error + ('box, 'trk) tracking" where
  "track_faces ext gray T faces st =
     (case update_trackers ext gray (trackers st) (confidences st) of (trks1, conf1) \<Rightarrow>
        (case match_faces ext gray T faces trks1 conf1 (foutput st) of
           Inl e \<Rightarrow> Inl e
         | Inr (trks2, unmatched2, faces2, out2) \<Rightarrow>
             (case spawn_faces ext gray T faces2 (trks2, conf1, identifier st, out2) of
                (trks3, conf3, ident3, out3) \<Rightarrow>
                  (case coast ext T unmatched2 conf3 trks3 out3 of
                     Inl e \<Rightarrow> Inl e
                   | Inr out4 \<Rightarrow>
                       Inr (st\<lparr>trackers := trks3, confidences := conf3,
                               identifier := ident3, foutput := out4\<rparr>)))))"

text \<open>
  The body of \<open>for timestamp, frame in frames\<close>; a frame is given as its timestamp and
  its grayscale image (the conversion is OpenCV's).
\<close>

fun track_frame ::
  "('img, 'box, 'trk) externals \<Rightarrow> ('box, 'trk) tracking \<Rightarrow> real \<times> 'img
     \<Rightarrow> error + ('box, 'trk) tracking" where
  "track_frame ext st (timestamp, gray) =
     (case shot_check st timestamp of
        Inl e \<Rightarrow> Inl e
      | Inr st1 \<Rightarrow>
          (case face_send (faceGenerator st1) timestamp of
             ((T, faces), g') \<Rightarrow> track_faces ext gray T faces (st1\<lparr>faceGenerator := g'\<rparr>)))"

subsection \<open>The whole run (lines 184 to 292)\<close>

text \<open>Both generators primed, no tracker, the counter at 0, nothing written.\<close>

definition track_init :: "real list \<Rightarrow> 'box face_line list \<Rightarrow> ('box, 'trk) tracking" where
  "track_init shot detection =
     \<lparr>shotGenerator = ShotStart shot, faceGenerator = FaceStart detection,
      trackers = [], confidences = Map.empty, identifier = 0, foutput = []\<rparr>"

fun track_run ::
  "('img, 'box, 'trk) externals \<Rightarrow> ('box, 'trk) tracking \<Rightarrow> (real \<times> 'img) list
     \<Rightarrow> error + ('box, 'trk) tracking" where
  "track_run ext st [] = Inr st"
| "track_run ext st (fr # frames) =
     (case track_frame ext st fr of
        Inl e \<Rightarrow> Inl e
      | Inr st' \<Rightarrow> track_run ext st' frames)"

definition track ::
  "('img, 'box, 'trk) externals \<Rightarrow> (real \<times> 'img) list \<Rightarrow> real list \<Rightarrow> 'box face_line list
     \<Rightarrow> error + ('box, 'trk) tracking" where
  "track ext frames shot detection = track_run ext (track_init shot detection) frames"

subsection \<open>A stand-in for the collaborators\<close>

text \<open>
  To run the model on examples: boxes are integer rectangles (left, top, right, bottom)
  as read from a detection file, a tracker is the box it was last seeded on and reports
  the confidence 1/2, and the solver pairs row i with column i.
\<close>

type_synonym rect = "int \<times> int \<times> int \<times> int"

fun rect_area :: "rect \<Rightarrow> real" where
  "rect_area (l, t, r, b) = (if r < l \<or> b < t then 0 else real_of_int ((r - l) * (b - t)))"

fun rect_intersect :: "rect \<Rightarrow> rect \<Rightarrow> rect" where
  "rect_intersect (l1, t1, r1, b1) (l2, t2, r2, b2) =
     (max l1 l2, max t1 t2, min r1 r2, min b1 b2)"

definition diagonal :: "real list list \<Rightarrow> (nat \<times> nat) list" where
  "diagonal m = map (\<lambda>i. (i, i)) [0..<length m]"

definition sample :: "(unit, rect, rect) externals" where
  "sample =
     \<lparr>correlation_tracker = (0, 0, 0, 0),
      start_track = (\<lambda>tracker gray face. face),
      tracker_update = (\<lambda>tracker gray. (tracker, 1 / 2)),
      get_position = (\<lambda>tracker. tracker),
      intersect_area = (\<lambda>p q. rect_area (rect_intersect p q)),
      area = rect_area,
      box_left = (\<lambda>(l, t, r, b). real_of_int l),
      box_top = (\<lambda>(l, t, r, b). real_of_int t),
      box_right = (\<lambda>(l, t, r, b). real_of_int r),
      box_bottom = (\<lambda>(l, t, r, b). real_of_int b),
      hungarian_compute = diagonal\<rparr>"

text \<open>A state of the run on the sample detections below, after the frame at 1.0.\<close>

definition sample_detection :: "rect face_line list" where
  "sample_detection =
     [(1, 7, (0, 0, 10, 10)), (2, 8, (0, 0, 10, 10)), (2, 9, (50, 50, 60, 60)),
      (3, 10, (0, 0, 10, 10))]"

definition sample_state :: "(rect, rect) tracking" where
  "sample_state =
     \<lparr>shotGenerator = ShotWait 5 [],
      faceGenerator =
        FaceGot (2, 8, (0, 0, 10, 10)) [(2, 9, (50, 50, 60, 60)), (3, 10, (0, 0, 10, 10))],
      trackers = [(1, (0, 0, 10, 10))],
      confidences = [1 \<mapsto> 1 / 2],
      identifier = 1,
      foutput = [FaceRecord 1 1 0 0 10 10 0]\<rparr>"

text \<open>The state after the next frame, at 2.0: track 1 is matched, track 2 is new.\<close>

definition sample_next :: "(rect, rect) tracking" where
  "sample_next =
     \<lparr>shotGenerator = ShotWait 5 [],
      faceGenerator = FaceGot (3, 10, (0, 0, 10, 10)) [],
      trackers = [(1, (0, 0, 10, 10)), (2, (50, 50, 60, 60))],
      confidences = [1 \<mapsto> 1 / 2, 2 \<mapsto> 1 / 2],
      identifier = 2,
      foutput = [FaceRecord 1 1 0 0 10 10 0, FaceRecord 2 1 0 0 10 10 (1 / 2),
                 FaceRecord 2 2 50 50 60 60 0]\<rparr>"

text \<open>
  The state after the frame at 3.0: the detection at 3.0 is the last group of the file
  and is not returned, so both tracks coast.
\<close>

definition sample_coast :: "(rect, rect) tracking" where
  "sample_coast =
     \<lparr>shotGenerator = ShotWait 5 [],
      faceGenerator = FaceEnd,
      trackers = [(1, (0, 0, 10, 10)), (2, (50, 50, 60, 60))],
      confidences = [1 \<mapsto> 1 / 2, 2 \<mapsto> 1 / 2],
      identifier = 2,
      foutput = [FaceRecord 1 1 0 0 10 10 0, FaceRecord 2 1 0 0 10 10 (1 / 2),
                 FaceRecord 2 2 50 50 60 60 0, FaceRecord 3 1 0 0 10 10 (1 / 2),
                 FaceRecord 3 2 50 50 60 60 (1 / 2)]\<rparr>"

text \<open>One tracker and two faces, the second of which overlaps the tracker.\<close>

definition sample_trackers :: "(int \<times> rect) list" where
  "sample_trackers = [(1, (0, 0, 10, 10))]"

definition sample_faces :: "(int \<times> rect) list" where
  "sample_faces = [(7, (20, 20, 30, 30)), (8, (0, 0, 6, 10))]"

text \<open>
  Three trackers and two faces: the first face is half covered by the first tracker,
  which is the larger of the two; the second face coincides with the second tracker.
\<close>

definition boundary_trackers :: "(int \<times> rect) list" where
  "boundary_trackers =
     [(1, (5, 0, 25, 10)), (2, (100, 100, 110, 110)), (3, (200, 200, 210, 210))]"

definition boundary_faces :: "(int \<times> rect) list" where
  "boundary_faces = [(7, (0, 0, 10, 10)), (8, (100, 100, 110, 110))]"

section \<open>Notions used in the statements\<close>

text \<open>
  The number of faces a face generator can still return: everything it holds or has
  not read, less the line that closes the last group.
\<close>

fun avail :: "'box face_gen \<Rightarrow> nat" where
  "avail (FaceStart ls) = length ls - 1"
| "avail (FaceWait c fs nxt ls) = length fs + length ls"
| "avail (FaceGot nxt ls) = length ls"
| "avail FaceEnd = 0"

text \<open>
  The acceptance rule in the words of the specification: with A the intersection area,
  Fa the area of the detection and Ta the area of the track, a match is accepted iff
  2A > Fa or 2A > Ta.
\<close>

definition acceptance_rule :: "real \<Rightarrow> real \<Rightarrow> real \<Rightarrow> bool" where
  "acceptance_rule A Fa Ta \<longleftrightarrow> 2 * A > Fa \<or> 2 * A > Ta"

text \<open>
  A pair (t, f) proposed by the solver passes when both indices are real and the rule
  holds for the position of track t and the box of detection f.
\<close>

fun accepted_pair ::
  "('img, 'box, 'trk) externals \<Rightarrow> (int \<times> 'trk) list \<Rightarrow> (int \<times> 'box) list \<Rightarrow> nat \<times> nat \<Rightarrow> bool" where
  "accepted_pair ext trks faces (t, f) \<longleftrightarrow>
     t < length trks \<and> f < length faces \<and>
     acceptance_rule
       (intersect_area ext (get_position ext (snd (trks ! t))) (snd (faces ! f)))
       (area ext (snd (faces ! f)))
       (area ext (get_position ext (snd (trks ! t))))"

text \<open>
  What accepting the pair (t, f) does: track t is seeded again on the box of detection
  f, detection f is marked as consumed, and a record with the box of the detection and
  the confidence of the track is written.
\<close>

fun reseed ::
  "('img, 'box, 'trk) externals \<Rightarrow> 'img \<Rightarrow> (int \<times> 'trk) list \<Rightarrow> (int \<times> 'box) list \<Rightarrow> nat \<times> nat
     \<Rightarrow> (int \<times> 'trk) list \<Rightarrow> (int \<times> 'trk) list" where
  "reseed ext gray trks faces (t, f) cur =
     cur[t := (fst (trks ! t), start_track ext (snd (trks ! t)) gray (snd (faces ! f)))]"

fun consume :: "nat \<times> nat \<Rightarrow> 'a option list \<Rightarrow> 'a option list" where
  "consume (t, f) fcs = fcs[f := None]"

fun matched_record ::
  "('img, 'box, 'trk) externals \<Rightarrow> real \<Rightarrow> (int \<rightharpoonup> real) \<Rightarrow> (int \<times> 'trk) list \<Rightarrow> (int \<times> 'box) list
     \<Rightarrow> nat \<times> nat \<Rightarrow> face_record" where
  "matched_record ext T conf trks faces (t, f) =
     face_template ext T (fst (trks ! t)) (the (conf (fst (trks ! t)))) (snd (faces ! f))"

text \<open>
  The invariant of the loop over the solver's pairs, relative to the trackers and faces
  it started with: keys stay in place, a tracker whose key is still unmatched is
  untouched, and a face is either consumed or the original one.
\<close>

definition match_inv ::
  "(int \<times> 'trk) list \<Rightarrow> (int \<times> 'box) list \<Rightarrow> ('box, 'trk) matching \<Rightarrow> bool" where
  "match_inv trks0 faces0 S =
     (case S of (trks, unm, fcs, out) \<Rightarrow>
        length trks = length trks0 \<and> length fcs = length faces0 \<and>
        (\<forall>t<length trks0. fst (trks ! t) = fst (trks0 ! t) \<and>
                            (fst (trks0 ! t) \<in> unm \<longrightarrow> trks ! t = trks0 ! t)) \<and>
        (\<forall>f<length faces0. fcs ! f = None \<or> fcs ! f = Some (faces0 ! f)))"

text \<open>The trackers after \<open>update\<close> was called on each.\<close>

definition updated ::
  "('img, 'box, 'trk) externals \<Rightarrow> 'img \<Rightarrow> (int \<times> 'trk) list \<Rightarrow> (int \<times> 'trk) list" where
  "updated ext gray trks = map (\<lambda>(i, tracker). (i, fst (tracker_update ext tracker gray))) trks"

text \<open>The boxes of the faces no track has consumed, in order.\<close>

fun pending_faces :: "(int \<times> 'box) option list \<Rightarrow> 'box list" where
  "pending_faces [] = []"
| "pending_faces (None # fcs) = pending_faces fcs"
| "pending_faces (Some (_, face) # fcs) = face # pending_faces fcs"

text \<open>A new tracker seeded on a box and updated once: its state and its confidence.\<close>

definition seeded :: "('img, 'box, 'trk) externals \<Rightarrow> 'img \<Rightarrow> 'box \<Rightarrow> 'trk \<times> real" where
  "seeded ext gray face =
     tracker_update ext (start_track ext (correlation_tracker ext) gray face) gray"

text \<open>The elements of a list paired with the identifiers that follow \<open>ident\<close>.\<close>

definition numbered :: "int \<Rightarrow> 'a list \<Rightarrow> (int \<times> 'a) list" where
  "numbered ident xs = zip [ident + 1..ident + int (length xs)] xs"

definition remember ::
  "('img, 'box, 'trk) externals \<Rightarrow> 'img \<Rightarrow> int \<times> 'box \<Rightarrow> (int \<rightharpoonup> real) \<Rightarrow> (int \<rightharpoonup> real)" where
  "remember ext gray kf m = m(fst kf \<mapsto> snd (seeded ext gray (snd kf)))"

text \<open>The records and trackers of the faces spawned after \<open>ident\<close>, with confidence 0.\<close>

definition spawn_records ::
  "('img, 'box, 'trk) externals \<Rightarrow> real \<Rightarrow> int \<Rightarrow> 'box list \<Rightarrow> face_record list" where
  "spawn_records ext T ident boxes =
     map (\<lambda>(k, face). face_template ext T k 0 face) (numbered ident boxes)"

definition spawn_trackers ::
  "('img, 'box, 'trk) externals \<Rightarrow> 'img \<Rightarrow> int \<Rightarrow> 'box list \<Rightarrow> (int \<times> 'trk) list" where
  "spawn_trackers ext gray ident boxes =
     map (\<lambda>(k, face). (k, fst (seeded ext gray face))) (numbered ident boxes)"

text \<open>
  The records of the coasting tracks: for each tracker whose key is unmatched, its own
  position and its confidence.
\<close>

definition coast_records ::
  "('img, 'box, 'trk) externals \<Rightarrow> real \<Rightarrow> int set \<Rightarrow> (int \<rightharpoonup> real) \<Rightarrow> (int \<times> 'trk) list
     \<Rightarrow> face_record list" where
  "coast_records ext T unm conf trks =
     map (\<lambda>(i, tracker). face_template ext T i (the (conf i)) (get_position ext tracker))
       (filter (\<lambda>(i, tracker). i \<in> unm) trks)"

text \<open>
  The invariant of the run: the live identifiers are distinct, and no live or written
  identifier exceeds the counter.
\<close>

definition track_inv :: "('box, 'trk) tracking \<Rightarrow> bool" where
  "track_inv st \<longleftrightarrow>
     distinct (map fst (trackers st)) \<and>
     (\<forall>k\<in>set (map fst (trackers st)). k \<le> identifier st) \<and>
     (\<forall>r\<in>set (foutput st). rec_identifier r \<le> identifier st)"

section \<open>Properties of the synchronizers\<close>

lemma shot_send_exhausted:
  "shot_send (ShotFound []) t = (Inl StopIteration, ShotDone)"
  "shot_send (ShotStart []) t = (Inl StopIteration, ShotDone)"
  by simp_all

lemma face_sends_exhausted: "face_sends FaceEnd ts = map (\<lambda>t. (t, [])) ts"
  by (induction ts) simp_all

text \<open>
  C1. Once the shot file is read to its end, the next send to the shot generator does not
  return "no cut": the generator function ends and the send raises StopIteration (the
  face generator, in contrast, ends in an endless \<open>yield t, []\<close>). With one boundary at
  5.0, the frame at 5.0 gets the cut and the frame at 6.0 gets the exception, which
  \<open>track\<close> does not catch.
\<close>

theorem shot_generator_exhaustion_raises:
  "shot_sends (ShotStart [5]) [5, 6] = [Inr (Some 5), Inl StopIteration] \<and>
   track sample [(5, ()), (6, ())] [5] [] = Inl StopIteration"
  by (simp add: shot_while_def track_def track_init_def shot_check_def track_faces_def
      match_faces_def)

text \<open>
  The faces a face generator returns, over any sequence of sends, are fewer than the
  lines of its file: the group that is being loaded when the file ends is dropped.
\<close>

lemma face_for_bound:
  "face_for faces cT ls t = ((T, fs), g') \<Longrightarrow>
   length fs + avail g' \<le> length faces + length ls - 1"
  by (induction faces cT ls t rule: face_for.induct)
     (auto simp: face_while_def split: option.splits if_splits)

lemma face_send_bound:
  "face_send g t = ((T, fs), g') \<Longrightarrow> length fs + avail g' \<le> avail g"
  by (cases g) (auto simp: face_while_def dest!: face_for_bound split: if_splits)

lemma face_sends_bound:
  "(\<Sum>r\<leftarrow>face_sends g ts. length (snd r)) \<le> avail g"
proof (induction ts arbitrary: g)
  case Nil
  then show ?case by simp
next
  case (Cons t ts)
  obtain T fs g' where s: "face_send g t = ((T, fs), g')"
    by (metis surj_pair)
  from Cons[of g'] face_send_bound[OF s] show ?case
    by (simp add: s)
qed

lemma face_sends_lose_a_line:
  "ls \<noteq> [] \<Longrightarrow> (\<Sum>r\<leftarrow>face_sends (FaceStart ls) ts. length (snd r)) < length ls"
  using face_sends_bound[of "FaceStart ls" ts] by (cases ls) simp_all

text \<open>
  C2. The last group of the detection stream is never returned. With the two detections
  of the specification's scenario, both at 1.0, every frame gets an empty list, at 1.0
  and after it; \<open>track\<close> then writes nothing and creates no track.
\<close>

theorem final_group_never_returned:
  "face_sends (FaceStart [(1, 1, (0, 0, 10, 10)), (1, 2, (20, 20, 30, 30))] :: rect face_gen)
     [0, 1, 2, 3] = [(0, []), (1, []), (2, []), (3, [])] \<and>
   map_sum id (\<lambda>st. (trackers st, foutput st))
     (track sample [(0, ()), (1, ()), (2, ()), (3, ())] [5]
        [(1, 1, (0, 0, 10, 10)), (1, 2, (20, 20, 30, 30))]) = Inr ([], [])"
  by (simp add: shot_while_def track_def track_init_def shot_check_def track_faces_def
      match_faces_def)

text \<open>
  C9. The cut is tested by \<open>if shot:\<close>, and 0.0 is false. When the boundary the shot
  generator holds next is 0.0 and the frame time has reached it, the send consumes that
  line and the state of the run is otherwise left as it was: no tracker and no
  confidence is cleared.
\<close>

theorem zero_shot_never_resets:
  assumes "0 \<le> timestamp"
    and "shotGenerator st = ShotStart (0 # ls) \<or> shotGenerator st = ShotFound (0 # ls)
           \<or> shotGenerator st = ShotWait 0 ls"
  shows "shot_send (shotGenerator st) timestamp = (Inr (Some 0), ShotFound ls) \<and>
         shot_check st timestamp = Inr (st\<lparr>shotGenerator := ShotFound ls\<rparr>)"
  using assms by (auto simp: shot_check_def shot_while_def)

theorem zero_shot_never_resets_witness:
  "(0::real) \<le> 2 \<and>
   shotGenerator (sample_state\<lparr>shotGenerator := ShotFound [0, 7]\<rparr>) = ShotFound [0, 7] \<and>
   shot_check (sample_state\<lparr>shotGenerator := ShotFound [0, 7]\<rparr>) 2 =
     Inr (sample_state\<lparr>shotGenerator := ShotFound [7]\<rparr>) \<and>
   trackers (sample_state\<lparr>shotGenerator := ShotFound [7]\<rparr>) = [(1, (0, 0, 10, 10))]"
proof -
  have h1: "(0::real) \<le> 2" by simp
  have h2: "shotGenerator (sample_state\<lparr>shotGenerator := ShotFound [0, 7]\<rparr>) = ShotStart (0 # [7]) \<or>
            shotGenerator (sample_state\<lparr>shotGenerator := ShotFound [0, 7]\<rparr>) = ShotFound (0 # [7]) \<or>
            shotGenerator (sample_state\<lparr>shotGenerator := ShotFound [0, 7]\<rparr>) = ShotWait 0 [7]"
    by simp
  show ?thesis
    using zero_shot_never_resets[OF h1 h2] by (simp add: sample_state_def)
qed

section \<open>The overlap matrix and the cost matrix\<close>

lemma fill_row_length: "length (fill_row ext p t f faces areas) = length areas"
  by (induction ext p t f faces areas rule: fill_row.induct) simp_all

lemma fill_row_row_length:
  "length (fill_row ext p t f faces areas ! i) = length (areas ! i)"
proof (induction ext p t f faces areas rule: fill_row.induct)
  case (1 ext position t f areas)
  then show ?case by simp
next
  case (2 ext position t f uu face faces areas)
  then show ?case
    by (cases "t < length areas") (simp_all add: nth_list_update list_update_beyond)
qed

lemma fill_row_nth:
  "t < length areas \<Longrightarrow> f + length faces \<le> length (areas ! t) \<Longrightarrow>
   fill_row ext p t f faces areas ! i ! j =
     (if i = t \<and> f \<le> j \<and> j < f + length faces
      then intersect_area ext p (snd (faces ! (j - f)))
      else areas ! i ! j)"
proof (induction ext p t f faces areas rule: fill_row.induct)
  case (1 ext position t f areas)
  then show ?case by simp
next
  case (2 ext position t f uu face faces areas)
  then show ?case
    by (auto simp: nth_list_update nth_Cons' Suc_diff_le)
qed

lemma fill_areas_length: "length (fill_areas ext t trks faces areas) = length areas"
  by (induction ext t trks faces areas rule: fill_areas.induct) (simp_all add: fill_row_length)

lemma fill_areas_row_length:
  "length (fill_areas ext t trks faces areas ! i) = length (areas ! i)"
  by (induction ext t trks faces areas rule: fill_areas.induct)
     (simp_all add: fill_row_row_length)

lemma fill_areas_nth:
  "t + length trks \<le> length areas \<Longrightarrow> \<forall>i<length areas. length faces \<le> length (areas ! i) \<Longrightarrow>
   fill_areas ext t trks faces areas ! i ! j =
     (if t \<le> i \<and> i < t + length trks \<and> j < length faces
      then intersect_area ext (get_position ext (snd (trks ! (i - t)))) (snd (faces ! j))
      else areas ! i ! j)"
proof (induction ext t trks faces areas rule: fill_areas.induct)
  case (1 ext t faces areas)
  then show ?case by simp
next
  case (2 ext t i' tracker rest faces areas)
  have a: "Suc t + length rest \<le> length (fill_row ext (get_position ext tracker) t 0 faces areas)"
    using 2(2) by (simp add: fill_row_length)
  have b: "\<forall>k<length (fill_row ext (get_position ext tracker) t 0 faces areas).
             length faces \<le> length (fill_row ext (get_position ext tracker) t 0 faces areas ! k)"
    using 2(3) by (simp add: fill_row_length fill_row_row_length)
  have c: "t < length areas" "0 + length faces \<le> length (areas ! t)"
    using 2(2,3) by auto
  show ?case
    using 2(1)[OF a b] fill_row_nth[OF c, of ext "get_position ext tracker" i j]
    by (auto simp: nth_Cons' Suc_diff_le)
qed

lemma overlap_areas_length:
  "length (overlap_areas ext trks faces) = max (length trks) (length faces)"
  by (simp add: overlap_areas_def Let_def fill_areas_length np_zeros_def)

lemma overlap_areas_row_length:
  "i < max (length trks) (length faces) \<Longrightarrow>
   length (overlap_areas ext trks faces ! i) = max (length trks) (length faces)"
  by (simp add: overlap_areas_def Let_def fill_areas_row_length np_zeros_def)

lemma overlap_areas_nth:
  "i < max (length trks) (length faces) \<Longrightarrow> j < max (length trks) (length faces) \<Longrightarrow>
   overlap_areas ext trks faces ! i ! j =
     (if i < length trks \<and> j < length faces
      then intersect_area ext (get_position ext (snd (trks ! i))) (snd (faces ! j))
      else 0)"
  unfolding overlap_areas_def Let_def
  by (subst fill_areas_nth) (auto simp: np_zeros_def)

lemma cost_matrix_length: "length (cost_matrix areas) = length areas"
  by (simp add: cost_matrix_def)

lemma cost_matrix_nth:
  "i < length areas \<Longrightarrow> j < length (areas ! i) \<Longrightarrow>
   cost_matrix areas ! i ! j = np_max areas - areas ! i ! j"
  by (simp add: cost_matrix_def)

lemma cost_matrix_row_length:
  "i < length areas \<Longrightarrow> length (cost_matrix areas ! i) = length (areas ! i)"
  by (simp add: cost_matrix_def)

lemma overlap_areas_real:
  "i < length trks \<Longrightarrow> j < length faces \<Longrightarrow>
   overlap_areas ext trks faces ! i ! j =
     intersect_area ext (get_position ext (snd (trks ! i))) (snd (faces ! j))"
  by (simp add: overlap_areas_nth less_max_iff_disj)

text \<open>\<open>np.max\<close> is the maximum: no entry exceeds it, and it is one of the entries.\<close>

lemma np_max_ge:
  assumes "i < length areas" and "j < length (areas ! i)"
  shows "areas ! i ! j \<le> np_max areas"
proof -
  have "areas ! i ! j \<in> set (areas ! i)" using assms(2) by simp
  moreover have "areas ! i \<in> set areas" using assms(1) by simp
  ultimately have "areas ! i ! j \<in> set (concat areas)" by auto
  then show ?thesis
    unfolding np_max_def by (intro Max_ge) simp_all
qed

lemma np_max_attained:
  assumes "concat areas \<noteq> []"
  shows "\<exists>i<length areas. \<exists>j<length (areas ! i). np_max areas = areas ! i ! j"
proof -
  have "Max (set (concat areas)) \<in> set (concat areas)"
    using assms by (intro Max_in) simp_all
  then obtain row where r: "row \<in> set areas" "np_max areas \<in> set row"
    unfolding np_max_def by auto
  from r(1) obtain i where i: "i < length areas" "areas ! i = row"
    by (auto simp: in_set_conv_nth)
  from r(2) obtain j where j: "j < length row" "row ! j = np_max areas"
    by (auto simp: in_set_conv_nth)
  have "j < length (areas ! i)" "np_max areas = areas ! i ! j"
    using i j by simp_all
  then show ?thesis
    using i(1) by blast
qed

text \<open>
  C4. With at least one tracker and one face, the matrix handed to the solver is N by N
  for N = max(Nt, Nf); each of its entries is the largest overlap minus the overlap at
  that place; and the overlap at (i, j) is the area of the intersection of the position
  of tracker i with the box of face j where both indices are real, and 0 in the padding.
  The largest overlap is the maximum of the overlap matrix: it bounds every entry and is
  the entry at some place, so every cost is at least 0 and the cost at that place is 0.
\<close>

theorem cost_matrix_construction:
  assumes "trks \<noteq> []" and "faces \<noteq> []"
    and "N = max (length trks) (length faces)"
    and "areas = overlap_areas ext trks faces"
  shows "length (cost_matrix areas) = N \<and>
         (\<forall>i<N. length (cost_matrix areas ! i) = N \<and>
            (\<forall>j<N. cost_matrix areas ! i ! j = np_max areas - areas ! i ! j \<and>
                   areas ! i ! j =
                     (if i < length trks \<and> j < length faces
                      then intersect_area ext (get_position ext (snd (trks ! i))) (snd (faces ! j))
                      else 0))) \<and>
         (\<forall>i<N. \<forall>j<N. areas ! i ! j \<le> np_max areas \<and> 0 \<le> cost_matrix areas ! i ! j) \<and>
         (\<exists>i<N. \<exists>j<N. np_max areas = areas ! i ! j \<and> cost_matrix areas ! i ! j = 0)"
proof -
  have len: "length areas = N"
    using assms(3,4) by (simp add: overlap_areas_length)
  have row: "length (areas ! i) = N" if "i < N" for i
    using that assms(3,4) by (simp add: overlap_areas_row_length)
  have pos: "0 < N" using assms(1,3) by (cases trks) simp_all
  have first: "length (cost_matrix areas) = N \<and>
         (\<forall>i<N. length (cost_matrix areas ! i) = N \<and>
            (\<forall>j<N. cost_matrix areas ! i ! j = np_max areas - areas ! i ! j \<and>
                   areas ! i ! j =
                     (if i < length trks \<and> j < length faces
                      then intersect_area ext (get_position ext (snd (trks ! i))) (snd (faces ! j))
                      else 0)))"
    using assms
    by (simp add: cost_matrix_length cost_matrix_row_length cost_matrix_nth
        overlap_areas_length overlap_areas_row_length overlap_areas_nth)
  have bound: "\<forall>i<N. \<forall>j<N. areas ! i ! j \<le> np_max areas \<and> 0 \<le> cost_matrix areas ! i ! j"
  proof (intro allI impI)
    fix i j assume ij: "i < N" "j < N"
    have "areas ! i ! j \<le> np_max areas"
      using ij len row by (intro np_max_ge) simp_all
    moreover have "cost_matrix areas ! i ! j = np_max areas - areas ! i ! j"
      using ij len row by (simp add: cost_matrix_nth)
    ultimately show "areas ! i ! j \<le> np_max areas \<and> 0 \<le> cost_matrix areas ! i ! j"
      by simp
  qed
  have "areas ! 0 \<in> set areas" using pos len by simp
  moreover have "areas ! 0 \<noteq> []" using row[OF pos] pos by auto
  ultimately have "concat areas \<noteq> []" by auto
  from np_max_attained[OF this] obtain i j where
    ij: "i < length areas" "j < length (areas ! i)" "np_max areas = areas ! i ! j"
    by blast
  have "i < N" "j < N" using ij len row by auto
  moreover have "cost_matrix areas ! i ! j = 0"
    using ij by (simp add: cost_matrix_nth)
  ultimately have att: "\<exists>i<N. \<exists>j<N. np_max areas = areas ! i ! j \<and> cost_matrix areas ! i ! j = 0"
    using ij(3) by blast
  show ?thesis
    by (intro conjI first[THEN conjunct1] first[THEN conjunct2] bound att)
qed

theorem cost_matrix_construction_witness:
  "sample_trackers \<noteq> [] \<and> sample_faces \<noteq> [] \<and>
   (2::nat) = max (length sample_trackers) (length sample_faces) \<and>
   overlap_areas sample sample_trackers sample_faces = [[0, 60], [0, 0]] \<and>
   cost_matrix (overlap_areas sample sample_trackers sample_faces) = [[60, 0], [60, 60]] \<and>
   np_max (overlap_areas sample sample_trackers sample_faces) = 60 \<and>
   intersect_area sample (get_position sample (snd (sample_trackers ! 0))) (snd (sample_faces ! 1))
     = 60 \<and>
   length (cost_matrix (overlap_areas sample sample_trackers sample_faces)) = 2 \<and>
   overlap_areas sample sample_trackers sample_faces ! 0 ! 0
     \<le> np_max (overlap_areas sample sample_trackers sample_faces) \<and>
   0 \<le> cost_matrix (overlap_areas sample sample_trackers sample_faces) ! 1 ! 1 \<and>
   np_max (overlap_areas sample sample_trackers sample_faces) =
     overlap_areas sample sample_trackers sample_faces ! 0 ! 1 \<and>
   cost_matrix (overlap_areas sample sample_trackers sample_faces) ! 0 ! 1 = 0"
proof -
  have h1: "sample_trackers \<noteq> []" by (simp add: sample_trackers_def)
  have h2: "sample_faces \<noteq> []" by (simp add: sample_faces_def)
  have h3: "(2::nat) = max (length sample_trackers) (length sample_faces)"
    by (simp add: sample_trackers_def sample_faces_def)
  have a: "overlap_areas sample sample_trackers sample_faces = [[0, 60], [0, 0]]"
    by (simp add: overlap_areas_def np_zeros_def sample_def numeral_2_eq_2
        sample_trackers_def sample_faces_def)
  have c: "cost_matrix (overlap_areas sample sample_trackers sample_faces) = [[60, 0], [60, 60]]"
    unfolding a by (simp add: cost_matrix_def np_max_def)
  have m: "np_max (overlap_areas sample sample_trackers sample_faces) = 60"
    unfolding a by (simp add: np_max_def)
  have i: "intersect_area sample (get_position sample (snd (sample_trackers ! 0)))
             (snd (sample_faces ! 1)) = 60"
    by (simp add: sample_def sample_trackers_def sample_faces_def)
  note t = cost_matrix_construction[OF h1 h2 h3 refl, of sample]
  note bound = t[THEN conjunct2, THEN conjunct2, THEN conjunct1]
  have b0: "overlap_areas sample sample_trackers sample_faces ! 0 ! 0
              \<le> np_max (overlap_areas sample sample_trackers sample_faces)"
    using bound[rule_format, of 0 0] by simp
  have b1: "0 \<le> cost_matrix (overlap_areas sample sample_trackers sample_faces) ! 1 ! 1"
    using bound[rule_format, of 1 1] by simp
  have at: "np_max (overlap_areas sample sample_trackers sample_faces) =
              overlap_areas sample sample_trackers sample_faces ! 0 ! 1"
    "cost_matrix (overlap_areas sample sample_trackers sample_faces) ! 0 ! 1 = 0"
    using a c m by simp_all
  show ?thesis
    by (intro conjI h1 h2 h3 a c m i t[THEN conjunct1] b0 b1 at)
qed

section \<open>Applying the assignment\<close>

subsection \<open>With a solver that proposes every row and every column at most once\<close>

lemma match_pairs_bipartite_gen:
  assumes "distinct (map fst mp)" and "distinct (map snd mp)"
    and "distinct (map fst trks0)" and "set (map fst trks0) \<subseteq> dom conf"
    and "length trks = length trks0" and "length fcs = length faces0"
    and "\<forall>(t, f)\<in>set mp. t < length trks0 \<longrightarrow> trks ! t = trks0 ! t \<and> fst (trks0 ! t) \<in> unm"
    and "\<forall>(t, f)\<in>set mp. f < length faces0 \<longrightarrow> fcs ! f = Some (faces0 ! f)"
  shows "match_pairs ext gray T (overlap_areas ext trks0 faces0) (length trks0) (length faces0)
           conf mp (trks, unm, fcs, out) =
         Inr (fold (reseed ext gray trks0 faces0) (filter (accepted_pair ext trks0 faces0) mp) trks,
              unm - (\<lambda>(t, f). fst (trks0 ! t)) ` set (filter (accepted_pair ext trks0 faces0) mp),
              fold consume (filter (accepted_pair ext trks0 faces0) mp) fcs,
              out @ map (matched_record ext T conf trks0 faces0)
                      (filter (accepted_pair ext trks0 faces0) mp))"
  using assms
proof (induction mp arbitrary: trks unm fcs out)
  case Nil
  then show ?case by simp
next
  case (Cons tf mp)
  obtain t f where tf: "tf = (t, f)" by (cases tf)
  let ?acc = "accepted_pair ext trks0 faces0"
  let ?areas = "overlap_areas ext trks0 faces0"
  have rest: "distinct (map fst mp)" "distinct (map snd mp)"
    using Cons.prems(1,2) by simp_all
  have tfresh: "t2 \<noteq> t \<and> f2 \<noteq> f" if "(t2, f2) \<in> set mp" for t2 f2
    using Cons.prems(1,2) that unfolding tf by (auto simp: image_iff)
  have p7: "trks ! t2 = trks0 ! t2 \<and> fst (trks0 ! t2) \<in> unm"
    if "(t2, f2) \<in> set (tf # mp)" "t2 < length trks0" for t2 f2
    using Cons.prems(7) that by blast
  have p8: "fcs ! f2 = Some (faces0 ! f2)"
    if "(t2, f2) \<in> set (tf # mp)" "f2 < length faces0" for t2 f2
    using Cons.prems(8) that by blast
  show ?case
  proof (cases "?acc (t, f)")
    case False
    have step: "match_pair ext gray T ?areas (length trks0) (length faces0)
                  conf (t, f) (trks, unm, fcs, out) = Inr (trks, unm, fcs, out)"
    proof (cases "t < length trks0 \<and> f < length faces0")
      case False
      then show ?thesis by auto
    next
      case True
      then have "fcs ! f = Some (faces0 ! f)" "trks ! t = trks0 ! t"
        using p7[of t f] p8[of t f] tf by auto
      moreover have "?areas ! t ! f =
          intersect_area ext (get_position ext (snd (trks0 ! t))) (snd (faces0 ! f))"
        using True by (simp add: overlap_areas_real)
      ultimately show ?thesis
        using True False
        by (cases "faces0 ! f"; cases "trks0 ! t") (simp add: acceptance_rule_def)
    qed
    have n7: "\<forall>(t2, f2)\<in>set mp. t2 < length trks0 \<longrightarrow> trks ! t2 = trks0 ! t2 \<and> fst (trks0 ! t2) \<in> unm"
      using p7 by auto
    have n8: "\<forall>(t2, f2)\<in>set mp. f2 < length faces0 \<longrightarrow> fcs ! f2 = Some (faces0 ! f2)"
      using p8 by auto
    have "match_pairs ext gray T ?areas (length trks0) (length faces0)
           conf mp (trks, unm, fcs, out) =
         Inr (fold (reseed ext gray trks0 faces0) (filter ?acc mp) trks,
              unm - (\<lambda>(t, f). fst (trks0 ! t)) ` set (filter ?acc mp),
              fold consume (filter ?acc mp) fcs,
              out @ map (matched_record ext T conf trks0 faces0) (filter ?acc mp))"
      by (rule Cons.IH[OF rest Cons.prems(3,4,5,6) n7 n8])
    then show ?thesis
      using step False by (simp add: tf)
  next
    case True
    then have real: "t < length trks0" "f < length faces0" by auto
    obtain i tracker where it: "trks0 ! t = (i, tracker)" by (cases "trks0 ! t")
    obtain fid face where ff: "faces0 ! f = (fid, face)" by (cases "faces0 ! f")
    have cur: "fcs ! f = Some (faces0 ! f)" "trks ! t = trks0 ! t" "i \<in> unm"
      using p7[of t f] p8[of t f] tf real it by auto
    have "i \<in> set (map fst trks0)"
      using real it by (metis fst_conv nth_map nth_mem length_map)
    then obtain c where c: "conf i = Some c"
      using Cons.prems(4) by auto
    have a: "?areas ! t ! f = intersect_area ext (get_position ext tracker) face"
      using real it ff by (simp add: overlap_areas_real)
    let ?trks = "trks[t := (i, start_track ext tracker gray face)]"
    have step: "match_pair ext gray T ?areas (length trks0) (length faces0)
                  conf (t, f) (trks, unm, fcs, out) =
                Inr (?trks, unm - {i}, fcs[f := None], out @ [face_template ext T i c face])"
      using True real cur it ff c a by (simp add: acceptance_rule_def)
    have others: "fst (trks0 ! t2) \<noteq> i" if m: "(t2, f2) \<in> set mp" and l: "t2 < length trks0" for t2 f2
    proof
      assume e: "fst (trks0 ! t2) = i"
      have "t2 \<noteq> t" using tfresh m by auto
      moreover have "map fst trks0 ! t2 = map fst trks0 ! t"
        using l real e it by simp
      ultimately show False
        using Cons.prems(3) l real by (simp add: nth_eq_iff_index_eq del: nth_map)
    qed
    have n7: "\<forall>(t2, f2)\<in>set mp. t2 < length trks0 \<longrightarrow>
                ?trks ! t2 = trks0 ! t2 \<and> fst (trks0 ! t2) \<in> unm - {i}"
    proof (clarify)
      fix t2 f2 assume m: "(t2, f2) \<in> set mp" and l: "t2 < length trks0"
      have "t2 \<noteq> t" using tfresh m by auto
      then show "?trks ! t2 = trks0 ! t2 \<and> fst (trks0 ! t2) \<in> unm - {i}"
        using p7[of t2 f2] others[OF m l] m l by simp
    qed
    have n8: "\<forall>(t2, f2)\<in>set mp. f2 < length faces0 \<longrightarrow> fcs[f := None] ! f2 = Some (faces0 ! f2)"
    proof (clarify)
      fix t2 f2 assume m: "(t2, f2) \<in> set mp" and l: "f2 < length faces0"
      have "f2 \<noteq> f" using tfresh m by auto
      then show "fcs[f := None] ! f2 = Some (faces0 ! f2)"
        using p8[of t2 f2] m l by simp
    qed
    have l5: "length ?trks = length trks0" using Cons.prems(5) by simp
    have l6: "length (fcs[f := None]) = length faces0" using Cons.prems(6) by simp
    have "match_pairs ext gray T ?areas (length trks0) (length faces0)
           conf mp (?trks, unm - {i}, fcs[f := None], out @ [face_template ext T i c face]) =
         Inr (fold (reseed ext gray trks0 faces0) (filter ?acc mp) ?trks,
              (unm - {i}) - (\<lambda>(t, f). fst (trks0 ! t)) ` set (filter ?acc mp),
              fold consume (filter ?acc mp) (fcs[f := None]),
              (out @ [face_template ext T i c face]) @
                map (matched_record ext T conf trks0 faces0) (filter ?acc mp))"
      by (rule Cons.IH[OF rest Cons.prems(3,4) l5 l6 n7 n8])
    moreover have "(unm - {i}) - (\<lambda>(t, f). fst (trks0 ! t)) ` set (filter ?acc mp) =
        unm - (\<lambda>(t, f). fst (trks0 ! t)) ` set (filter ?acc ((t, f) # mp))"
      using True it by auto
    ultimately show ?thesis
      using step True it ff c by (simp add: tf)
  qed
qed

text \<open>
  C3. Let the solver propose no row and no column twice. Then the matching stage fails
  on no pair, and what it does is exactly this: for the proposed pairs that have two
  real indices and satisfy 2A > Fa or 2A > Ta (strictly), in the solver's order, the
  track is seeded again on the detection and leaves the unmatched set, the detection is
  consumed and a record is written; every other pair, so every pair with a phantom row or
  column and every pair with 2A \<le> Fa and 2A \<le> Ta, changes nothing.
\<close>

theorem match_acceptance_rule:
  assumes "distinct (map fst (hungarian_compute ext (cost_matrix (overlap_areas ext trks faces))))"
    and "distinct (map snd (hungarian_compute ext (cost_matrix (overlap_areas ext trks faces))))"
    and "distinct (map fst trks)" and "set (map fst trks) \<subseteq> dom conf"
  shows "match_faces ext gray T faces trks conf out =
           Inr (fold (reseed ext gray trks faces)
                  (filter (accepted_pair ext trks faces)
                     (hungarian_compute ext (cost_matrix (overlap_areas ext trks faces)))) trks,
                set (map fst trks) -
                  (\<lambda>(t, f). fst (trks ! t)) `
                    set (filter (accepted_pair ext trks faces)
                           (hungarian_compute ext (cost_matrix (overlap_areas ext trks faces)))),
                fold consume
                  (filter (accepted_pair ext trks faces)
                     (hungarian_compute ext (cost_matrix (overlap_areas ext trks faces))))
                  (map Some faces),
                out @ map (matched_record ext T conf trks faces)
                        (filter (accepted_pair ext trks faces)
                           (hungarian_compute ext (cost_matrix (overlap_areas ext trks faces)))))"
proof (cases "length trks \<noteq> 0 \<and> length faces \<noteq> 0")
  case True
  let ?mp = "hungarian_compute ext (cost_matrix (overlap_areas ext trks faces))"
  have "match_faces ext gray T faces trks conf out =
          match_pairs ext gray T (overlap_areas ext trks faces) (length trks) (length faces) conf ?mp
            (trks, set (map fst trks), map Some faces, out)"
    using True by (simp add: match_faces_def Let_def)
  also have "\<dots> =
      Inr (fold (reseed ext gray trks faces) (filter (accepted_pair ext trks faces) ?mp) trks,
           set (map fst trks) -
             (\<lambda>(t, f). fst (trks ! t)) ` set (filter (accepted_pair ext trks faces) ?mp),
           fold consume (filter (accepted_pair ext trks faces) ?mp) (map Some faces),
           out @ map (matched_record ext T conf trks faces)
                   (filter (accepted_pair ext trks faces) ?mp))"
  proof (rule match_pairs_bipartite_gen[OF assms])
    show "length trks = length trks" ..
    show "length (map Some faces) = length faces" by simp
    show "\<forall>(t, f)\<in>set ?mp. t < length trks \<longrightarrow>
            trks ! t = trks ! t \<and> fst (trks ! t) \<in> set (map fst trks)"
      by (auto simp del: set_map) (metis nth_map nth_mem length_map)
    show "\<forall>(t, f)\<in>set ?mp. f < length faces \<longrightarrow> map Some faces ! f = Some (faces ! f)"
      by auto
  qed
  finally show ?thesis .
next
  case False
  then have none: "filter (accepted_pair ext trks faces) mp = []" for mp
    by (auto simp: filter_empty_conv)
  have "match_faces ext gray T faces trks conf out =
          Inr (trks, set (map fst trks), map Some faces, out)"
    using False unfolding match_faces_def Let_def by (simp only: if_False)
  then show ?thesis
    unfolding none by simp
qed

theorem match_acceptance_rule_witness:
  "distinct (map fst (hungarian_compute sample
      (cost_matrix (overlap_areas sample boundary_trackers boundary_faces)))) \<and>
   distinct (map snd (hungarian_compute sample
      (cost_matrix (overlap_areas sample boundary_trackers boundary_faces)))) \<and>
   distinct (map fst boundary_trackers) \<and>
   set (map fst boundary_trackers) \<subseteq> dom [1 \<mapsto> 1 / 2, 2 \<mapsto> 1 / 2, 3 \<mapsto> (1 / 2 :: real)] \<and>
   hungarian_compute sample (cost_matrix (overlap_areas sample boundary_trackers boundary_faces))
     = [(0, 0), (1, 1), (2, 2)] \<and>
   filter (accepted_pair sample boundary_trackers boundary_faces) [(0, 0), (1, 1), (2, 2)]
     = [(1, 1)] \<and>
   match_faces sample () 4 boundary_faces boundary_trackers
       [1 \<mapsto> 1 / 2, 2 \<mapsto> 1 / 2, 3 \<mapsto> 1 / 2] [] =
     Inr (boundary_trackers, {1, 3}, [Some (7, (0, 0, 10, 10)), None],
          [FaceRecord 4 2 100 100 110 110 (1 / 2)])"
proof -
  have mp: "hungarian_compute sample
              (cost_matrix (overlap_areas sample boundary_trackers boundary_faces))
              = [(0, 0), (1, 1), (2, 2)]"
    by (simp add: sample_def diagonal_def cost_matrix_def overlap_areas_def fill_areas_length
        np_zeros_def boundary_trackers_def boundary_faces_def upt_rec)
  have acc: "filter (accepted_pair sample boundary_trackers boundary_faces) [(0, 0), (1, 1), (2, 2)]
               = [(1, 1)]"
    by (simp add: sample_def acceptance_rule_def boundary_trackers_def boundary_faces_def)
  have h1: "distinct (map fst (hungarian_compute sample
      (cost_matrix (overlap_areas sample boundary_trackers boundary_faces))))"
    unfolding mp by simp
  have h2: "distinct (map snd (hungarian_compute sample
      (cost_matrix (overlap_areas sample boundary_trackers boundary_faces))))"
    unfolding mp by simp
  have h3: "distinct (map fst boundary_trackers)"
    by (simp add: boundary_trackers_def)
  have h4: "set (map fst boundary_trackers)
              \<subseteq> dom [1 \<mapsto> 1 / 2, 2 \<mapsto> 1 / 2, 3 \<mapsto> (1 / 2 :: real)]"
    by (simp add: boundary_trackers_def)
  have "match_faces sample () 4 boundary_faces boundary_trackers
          [1 \<mapsto> 1 / 2, 2 \<mapsto> 1 / 2, 3 \<mapsto> 1 / 2] [] =
        Inr (boundary_trackers, {1, 3}, [Some (7, (0, 0, 10, 10)), None],
             [FaceRecord 4 2 100 100 110 110 (1 / 2)])"
    unfolding match_acceptance_rule[OF h1 h2 h3 h4] mp acc
    by (simp add: sample_def boundary_trackers_def boundary_faces_def face_template_def
        py_int_def insert_Diff_if)
  then show ?thesis
    using h1 h2 h3 h4 mp acc by simp
qed

subsection \<open>With any solver, when the stage does not fail\<close>

lemma match_pair_cases:
  assumes "match_pair ext gray T areas Nt Nf conf (t, f) (trks, unm, fcs, out) = Inr S'"
  shows "S' = (trks, unm, fcs, out) \<or>
         (t < Nt \<and> f < Nf \<and>
          (\<exists>fid face c. fcs ! f = Some (fid, face) \<and> fst (trks ! t) \<in> unm \<and>
             conf (fst (trks ! t)) = Some c \<and>
             (2 * (areas ! t ! f) > area ext face \<or>
              2 * (areas ! t ! f) > area ext (get_position ext (snd (trks ! t)))) \<and>
             S' = (trks[t := (fst (trks ! t), start_track ext (snd (trks ! t)) gray face)],
                   unm - {fst (trks ! t)}, fcs[f := None],
                   out @ [face_template ext T (fst (trks ! t)) c face])))"
  using assms
  by (cases "trks ! t")
     (auto simp: Let_def split: if_splits option.splits prod.splits)

lemma match_inv_start: "match_inv trks0 faces0 (trks0, unm, map Some faces0, out)"
  by (simp add: match_inv_def)

lemma match_pair_step:
  assumes inv: "match_inv trks0 faces0 (trks, unm, fcs, out)"
    and run: "match_pair ext gray T (overlap_areas ext trks0 faces0) (length trks0) (length faces0)
                conf (t, f) (trks, unm, fcs, out) = Inr S'"
  shows "S' = (trks, unm, fcs, out) \<or>
         (accepted_pair ext trks0 faces0 (t, f) \<and> fst (trks0 ! t) \<in> unm \<and>
          conf (fst (trks0 ! t)) \<noteq> None \<and>
          S' = (trks[t := (fst (trks0 ! t), start_track ext (snd (trks0 ! t)) gray (snd (faces0 ! f)))],
                unm - {fst (trks0 ! t)}, fcs[f := None],
                out @ [matched_record ext T conf trks0 faces0 (t, f)]))"
proof -
  from match_pair_cases[OF run]
  consider "S' = (trks, unm, fcs, out)"
    | fid face c where "t < length trks0" "f < length faces0" "fcs ! f = Some (fid, face)"
        "fst (trks ! t) \<in> unm" "conf (fst (trks ! t)) = Some c"
        "2 * (overlap_areas ext trks0 faces0 ! t ! f) > area ext face \<or>
         2 * (overlap_areas ext trks0 faces0 ! t ! f) > area ext (get_position ext (snd (trks ! t)))"
        "S' = (trks[t := (fst (trks ! t), start_track ext (snd (trks ! t)) gray face)],
                   unm - {fst (trks ! t)}, fcs[f := None],
                   out @ [face_template ext T (fst (trks ! t)) c face])"
    by blast
  then show ?thesis
  proof cases
    case 1
    then show ?thesis by simp
  next
    case 2
    have k: "fst (trks ! t) = fst (trks0 ! t)"
      using inv 2(1) by (simp add: match_inv_def)
    then have same: "trks ! t = trks0 ! t"
      using inv 2(1,4) by (simp add: match_inv_def)
    have face: "faces0 ! f = (fid, face)"
      using inv 2(2,3) by (auto simp: match_inv_def)
    show ?thesis
      using 2 k same face by (simp add: overlap_areas_real acceptance_rule_def)
  qed
qed

lemma match_pair_inv:
  assumes inv: "match_inv trks0 faces0 (trks, unm, fcs, out)"
    and run: "match_pair ext gray T (overlap_areas ext trks0 faces0) (length trks0) (length faces0)
                conf (t, f) (trks, unm, fcs, out) = Inr S'"
  shows "match_inv trks0 faces0 S'"
proof -
  from match_pair_step[OF inv run]
  consider "S' = (trks, unm, fcs, out)"
    | "S' = (trks[t := (fst (trks0 ! t), start_track ext (snd (trks0 ! t)) gray (snd (faces0 ! f)))],
                unm - {fst (trks0 ! t)}, fcs[f := None],
                out @ [matched_record ext T conf trks0 faces0 (t, f)])"
    by blast
  then show ?thesis
  proof cases
    case 1
    then show ?thesis using inv by simp
  next
    case 2
    have l: "length trks = length trks0" "length fcs = length faces0"
      using inv by (simp_all add: match_inv_def)
    have k: "fst (trks ! u) = fst (trks0 ! u)" if "u < length trks0" for u
      using inv that by (simp add: match_inv_def)
    have e: "trks ! u = trks0 ! u" if "u < length trks0" "fst (trks0 ! u) \<in> unm" for u
      using inv that by (simp add: match_inv_def)
    have c: "fcs ! g = None \<or> fcs ! g = Some (faces0 ! g)" if "g < length faces0" for g
      using inv that by (simp add: match_inv_def)
    show ?thesis
      unfolding 2 match_inv_def prod.case
    proof (intro conjI allI impI)
      show "length (trks[t := (fst (trks0 ! t), start_track ext (snd (trks0 ! t)) gray (snd (faces0 ! f)))])
              = length trks0"
        using l by simp
      show "length (fcs[f := None]) = length faces0" using l by simp
    next
      fix u assume "u < length trks0"
      then show "fst (trks[t := (fst (trks0 ! t), start_track ext (snd (trks0 ! t)) gray (snd (faces0 ! f)))] ! u)
                   = fst (trks0 ! u)"
        using k[of u] l by (cases "u = t") simp_all
    next
      fix u assume "u < length trks0" "fst (trks0 ! u) \<in> unm - {fst (trks0 ! t)}"
      then show "trks[t := (fst (trks0 ! t), start_track ext (snd (trks0 ! t)) gray (snd (faces0 ! f)))] ! u
                   = trks0 ! u"
        using e[of u] l by (cases "u = t") auto
    next
      fix g assume "g < length faces0"
      then show "fcs[f := None] ! g = None \<or> fcs[f := None] ! g = Some (faces0 ! g)"
        using c[of g] l by (cases "g = f") auto
    qed
  qed
qed

lemma match_pairs_inv:
  assumes "match_inv trks0 faces0 S"
    and "match_pairs ext gray T (overlap_areas ext trks0 faces0) (length trks0) (length faces0)
           conf mp S = Inr S'"
  shows "match_inv trks0 faces0 S'"
  using assms
proof (induction mp arbitrary: S)
  case Nil
  then show ?case by simp
next
  case (Cons tf mp)
  obtain t f where tf: "tf = (t, f)" by (cases tf)
  obtain trks unm fcs out where S: "S = (trks, unm, fcs, out)" by (cases S)
  from Cons.prems(2) obtain S1 where
    s1: "match_pair ext gray T (overlap_areas ext trks0 faces0) (length trks0) (length faces0)
           conf (t, f) (trks, unm, fcs, out) = Inr S1"
    and s2: "match_pairs ext gray T (overlap_areas ext trks0 faces0) (length trks0) (length faces0)
           conf mp S1 = Inr S'"
    unfolding tf S by (auto split: sum.splits)
  show ?case
    using Cons.IH[OF match_pair_inv[OF Cons.prems(1)[unfolded S] s1] s2] .
qed

lemma match_pairs_Cons_Inr:
  assumes "match_pairs ext gray T areas Nt Nf conf (tf # mp) S = Inr S'"
  obtains S1 where "match_pair ext gray T areas Nt Nf conf tf S = Inr S1"
    and "match_pairs ext gray T areas Nt Nf conf mp S1 = Inr S'"
  using assms by (auto split: sum.splits)

lemma mset_filter_remove1:
  "distinct ks \<Longrightarrow> i \<in> set ks \<Longrightarrow> P i \<Longrightarrow>
   mset (filter P ks) = add_mset i (mset (filter (\<lambda>k. P k \<and> k \<noteq> i) ks))"
proof (induction ks)
  case Nil
  then show ?case by simp
next
  case (Cons k ks)
  show ?case
  proof (cases "k = i")
    case True
    then have "i \<notin> set ks" using Cons.prems(1) by simp
    then have "filter (\<lambda>k. P k \<and> k \<noteq> i) ks = filter P ks"
      by (intro filter_cong) auto
    then show ?thesis using True Cons.prems(3) by simp
  next
    case False
    then show ?thesis using Cons by auto
  qed
qed

lemma match_pairs_unmatched:
  assumes "match_inv trks0 faces0 (trks, unm, fcs, out)"
    and "match_pairs ext gray T (overlap_areas ext trks0 faces0) (length trks0) (length faces0)
           conf mp (trks, unm, fcs, out) = Inr (trks', unm', fcs', out')"
  shows "unm' \<subseteq> unm \<and> (\<forall>u<length trks0. fst (trks0 ! u) \<notin> unm \<longrightarrow> trks' ! u = trks ! u)"
  using assms
proof (induction mp arbitrary: trks unm fcs out)
  case Nil
  then show ?case by simp
next
  case (Cons tf mp)
  obtain t f where tf: "tf = (t, f)" by (cases tf)
  from Cons.prems(2) obtain S1 where
    s1: "match_pair ext gray T (overlap_areas ext trks0 faces0) (length trks0) (length faces0)
           conf (t, f) (trks, unm, fcs, out) = Inr S1"
    and s2: "match_pairs ext gray T (overlap_areas ext trks0 faces0) (length trks0) (length faces0)
           conf mp S1 = Inr (trks', unm', fcs', out')"
    unfolding tf by (rule match_pairs_Cons_Inr)
  have inv1: "match_inv trks0 faces0 S1"
    by (rule match_pair_inv[OF Cons.prems(1) s1])
  from match_pair_step[OF Cons.prems(1) s1]
  consider "S1 = (trks, unm, fcs, out)"
    | "fst (trks0 ! t) \<in> unm"
      "S1 = (trks[t := (fst (trks0 ! t), start_track ext (snd (trks0 ! t)) gray (snd (faces0 ! f)))],
                unm - {fst (trks0 ! t)}, fcs[f := None],
                out @ [matched_record ext T conf trks0 faces0 (t, f)])"
    by blast
  then show ?case
  proof cases
    case 1
    show ?thesis using Cons.IH[OF inv1[unfolded 1] s2[unfolded 1]] .
  next
    case 2
    from Cons.IH[OF inv1[unfolded 2(2)] s2[unfolded 2(2)]]
    have a: "unm' \<subseteq> unm - {fst (trks0 ! t)}"
      and b: "\<And>u. u < length trks0 \<Longrightarrow> fst (trks0 ! u) \<notin> unm - {fst (trks0 ! t)} \<Longrightarrow>
                trks' ! u = trks[t := (fst (trks0 ! t), start_track ext (snd (trks0 ! t)) gray (snd (faces0 ! f)))] ! u"
      by blast+
    show ?thesis
    proof (intro conjI allI impI)
      show "unm' \<subseteq> unm" using a by blast
    next
      fix u assume u: "u < length trks0" "fst (trks0 ! u) \<notin> unm"
      then have "u \<noteq> t" using 2(1) by auto
      then show "trks' ! u = trks ! u" using b[of u] u by simp
    qed
  qed
qed

lemma match_pairs_output:
  assumes "match_inv trks0 faces0 (trks, unm, fcs, out)" and "distinct (map fst trks0)"
    and "match_pairs ext gray T (overlap_areas ext trks0 faces0) (length trks0) (length faces0)
           conf mp (trks, unm, fcs, out) = Inr (trks', unm', fcs', out')"
  shows "\<exists>new. out' = out @ new \<and>
           mset (map rec_identifier new) =
             mset (filter (\<lambda>k. k \<in> unm \<and> k \<notin> unm') (map fst trks0)) \<and>
           (\<forall>u<length trks0. fst (trks0 ! u) \<in> unm \<and> fst (trks0 ! u) \<notin> unm' \<longrightarrow>
              (\<exists>f. (u, f) \<in> set mp \<and> accepted_pair ext trks0 faces0 (u, f) \<and>
                 trks' ! u = (fst (trks0 ! u), start_track ext (snd (trks0 ! u)) gray (snd (faces0 ! f))) \<and>
                 matched_record ext T conf trks0 faces0 (u, f) \<in> set new))"
  using assms
proof (induction mp arbitrary: trks unm fcs out)
  case Nil
  then show ?case by auto
next
  case (Cons tf mp)
  obtain t f where tf: "tf = (t, f)" by (cases tf)
  let ?R = "(fst (trks0 ! t), start_track ext (snd (trks0 ! t)) gray (snd (faces0 ! f)))"
  let ?r = "matched_record ext T conf trks0 faces0 (t, f)"
  from Cons.prems(3) obtain S1 where
    s1: "match_pair ext gray T (overlap_areas ext trks0 faces0) (length trks0) (length faces0)
           conf (t, f) (trks, unm, fcs, out) = Inr S1"
    and s2: "match_pairs ext gray T (overlap_areas ext trks0 faces0) (length trks0) (length faces0)
           conf mp S1 = Inr (trks', unm', fcs', out')"
    unfolding tf by (rule match_pairs_Cons_Inr)
  have inv1: "match_inv trks0 faces0 S1"
    by (rule match_pair_inv[OF Cons.prems(1) s1])
  from match_pair_step[OF Cons.prems(1) s1]
  consider "S1 = (trks, unm, fcs, out)"
    | "accepted_pair ext trks0 faces0 (t, f)" "fst (trks0 ! t) \<in> unm"
      "S1 = (trks[t := ?R], unm - {fst (trks0 ! t)}, fcs[f := None], out @ [?r])"
    by blast
  then show ?case
  proof cases
    case 1
    from Cons.IH[OF inv1[unfolded 1] Cons.prems(2) s2[unfolded 1]]
    show ?thesis unfolding tf by (auto simp del: accepted_pair.simps matched_record.simps) blast
  next
    case 2
    let ?i = "fst (trks0 ! t)"
    have t: "t < length trks0" using 2(1) by simp
    from Cons.IH[OF inv1[unfolded 2(3)] Cons.prems(2) s2[unfolded 2(3)]]
    obtain new1 where o: "out' = (out @ [?r]) @ new1"
      and m: "mset (map rec_identifier new1) =
                mset (filter (\<lambda>k. k \<in> unm - {?i} \<and> k \<notin> unm') (map fst trks0))"
      and d: "\<And>u. u < length trks0 \<Longrightarrow> fst (trks0 ! u) \<in> unm - {?i} \<Longrightarrow> fst (trks0 ! u) \<notin> unm' \<Longrightarrow>
              (\<exists>f. (u, f) \<in> set mp \<and> accepted_pair ext trks0 faces0 (u, f) \<and>
                 trks' ! u = (fst (trks0 ! u), start_track ext (snd (trks0 ! u)) gray (snd (faces0 ! f))) \<and>
                 matched_record ext T conf trks0 faces0 (u, f) \<in> set new1)"
      by blast
    from match_pairs_unmatched[OF inv1[unfolded 2(3)] s2[unfolded 2(3)]]
    have sub: "unm' \<subseteq> unm - {?i}"
      and keep: "\<And>u. u < length trks0 \<Longrightarrow> fst (trks0 ! u) \<notin> unm - {?i} \<Longrightarrow> trks' ! u = trks[t := ?R] ! u"
      by blast+
    have len: "length trks = length trks0"
      using Cons.prems(1) by (simp add: match_inv_def)
    have iin: "?i \<in> set (map fst trks0)"
      using t by (metis nth_map nth_mem length_map)
    have P: "?i \<in> unm \<and> ?i \<notin> unm'" using 2(2) sub by auto
    have "(\<lambda>k. k \<in> unm - {?i} \<and> k \<notin> unm') = (\<lambda>k. (k \<in> unm \<and> k \<notin> unm') \<and> k \<noteq> ?i)"
      by auto
    then have ms: "mset (filter (\<lambda>k. k \<in> unm \<and> k \<notin> unm') (map fst trks0)) =
             add_mset ?i (mset (map rec_identifier new1))"
      using mset_filter_remove1[OF Cons.prems(2) iin, of "\<lambda>k. k \<in> unm \<and> k \<notin> unm'"] P m by simp
    have rid: "rec_identifier ?r = ?i" by (simp add: face_template_def)
    have tt: "trks' ! t = ?R"
      using keep[of t] t len by simp
    show ?thesis
    proof (intro exI[of _ "?r # new1"] conjI allI impI)
      show "out' = out @ ?r # new1" using o by simp
      show "mset (map rec_identifier (?r # new1))
              = mset (filter (\<lambda>k. k \<in> unm \<and> k \<notin> unm') (map fst trks0))"
        using ms rid by simp
    next
      fix u assume u: "u < length trks0" "fst (trks0 ! u) \<in> unm \<and> fst (trks0 ! u) \<notin> unm'"
      show "\<exists>f. (u, f) \<in> set (tf # mp) \<and> accepted_pair ext trks0 faces0 (u, f) \<and>
                 trks' ! u = (fst (trks0 ! u), start_track ext (snd (trks0 ! u)) gray (snd (faces0 ! f))) \<and>
                 matched_record ext T conf trks0 faces0 (u, f) \<in> set (?r # new1)"
      proof (cases "u = t")
        case True
        show ?thesis
          by (rule exI[of _ f]) (use True 2(1) tt tf in simp)
      next
        case False
        have "map fst trks0 ! u \<noteq> map fst trks0 ! t"
          using False u(1) t Cons.prems(2) by (simp add: nth_eq_iff_index_eq del: nth_map)
        then have "fst (trks0 ! u) \<in> unm - {?i}" using u t by simp
        from d[OF u(1) this] u(2) obtain f' where
          "(u, f') \<in> set mp" "accepted_pair ext trks0 faces0 (u, f')"
          "trks' ! u = (fst (trks0 ! u), start_track ext (snd (trks0 ! u)) gray (snd (faces0 ! f')))"
          "matched_record ext T conf trks0 faces0 (u, f') \<in> set new1"
          by blast
        then show ?thesis
          by (intro exI[of _ f']) simp
      qed
    qed
  qed
qed

lemma match_inv_keys:
  assumes "match_inv trks0 faces0 (trks, unm, fcs, out)"
  shows "map fst trks = map fst trks0"
  using assms by (auto simp: match_inv_def intro!: nth_equalityI)

lemma match_faces_effect:
  assumes run: "match_faces ext gray T faces trks conf out = Inr (trks2, unm2, fcs2, out2)"
    and dist: "distinct (map fst trks)"
  shows "match_inv trks faces (trks2, unm2, fcs2, out2) \<and>
         unm2 \<subseteq> set (map fst trks) \<and>
         (\<exists>new. out2 = out @ new \<and>
            mset (map rec_identifier new) = mset (filter (\<lambda>k. k \<notin> unm2) (map fst trks)) \<and>
            (\<forall>u<length trks. fst (trks ! u) \<notin> unm2 \<longrightarrow>
               (\<exists>f. (u, f) \<in> set (hungarian_compute ext (cost_matrix (overlap_areas ext trks faces))) \<and>
                  accepted_pair ext trks faces (u, f) \<and>
                  trks2 ! u = (fst (trks ! u), start_track ext (snd (trks ! u)) gray (snd (faces ! f))) \<and>
                  matched_record ext T conf trks faces (u, f) \<in> set new)))"
proof (cases "length trks \<noteq> 0 \<and> length faces \<noteq> 0")
  case False
  then have "match_faces ext gray T faces trks conf out =
                Inr (trks, set (map fst trks), map Some faces, out)"
    unfolding match_faces_def Let_def by (simp only: if_False)
  then have "(trks2, unm2, fcs2, out2) = (trks, set (map fst trks), map Some faces, out)"
    using run by simp
  then have e: "trks2 = trks" "unm2 = set (map fst trks)" "fcs2 = map Some faces" "out2 = out"
    by simp_all
  have "filter (\<lambda>k. k \<notin> set (map fst trks)) (map fst trks) = []"
    unfolding filter_empty_conv by blast
  moreover have "fst (trks ! u) \<in> set (map fst trks)" if "u < length trks" for u
    using that by (metis nth_map nth_mem length_map)
  ultimately show ?thesis
    unfolding e using match_inv_start[of trks faces] by (auto simp del: accepted_pair.simps)
next
  case True
  let ?mp = "hungarian_compute ext (cost_matrix (overlap_areas ext trks faces))"
  let ?unm = "set (map fst trks)"
  have r: "match_pairs ext gray T (overlap_areas ext trks faces) (length trks) (length faces) conf ?mp
             (trks, ?unm, map Some faces, out) = Inr (trks2, unm2, fcs2, out2)"
    using run True by (simp add: match_faces_def Let_def)
  note start = match_inv_start[of trks faces ?unm out]
  have i: "match_inv trks faces (trks2, unm2, fcs2, out2)"
    by (rule match_pairs_inv[OF start r])
  have s: "unm2 \<subseteq> ?unm"
    using match_pairs_unmatched[OF start r] by blast
  have f: "(\<lambda>k. k \<in> ?unm \<and> k \<notin> unm2) = (\<lambda>k. k \<in> set (map fst trks) \<and> k \<notin> unm2)" by simp
  have "filter (\<lambda>k. k \<in> ?unm \<and> k \<notin> unm2) (map fst trks) = filter (\<lambda>k. k \<notin> unm2) (map fst trks)"
    by (rule filter_cong) auto
  moreover have "fst (trks ! u) \<in> ?unm" if "u < length trks" for u
    using that by (metis nth_map nth_mem length_map)
  ultimately show ?thesis
    using match_pairs_output[OF start dist r] i s
    by (auto simp del: accepted_pair.simps matched_record.simps)
qed

section \<open>The frame\<close>

subsection \<open>Updating, spawning, coasting\<close>

lemma update_trackers_Cons:
  "update_trackers ext gray ((i, tracker) # rest) conf =
     ((i, fst (tracker_update ext tracker gray)) #
        fst (update_trackers ext gray rest (conf(i \<mapsto> snd (tracker_update ext tracker gray)))),
      snd (update_trackers ext gray rest (conf(i \<mapsto> snd (tracker_update ext tracker gray)))))"
  by (simp split: prod.splits)

lemma update_trackers_fst:
  "fst (update_trackers ext gray trks conf) = updated ext gray trks"
  by (induction trks arbitrary: conf)
     (auto simp: updated_def update_trackers_Cons simp del: update_trackers.simps(2))

lemma update_trackers_dom:
  "dom (snd (update_trackers ext gray trks conf)) = dom conf \<union> set (map fst trks)"
proof (induction trks arbitrary: conf)
  case Nil
  then show ?case by simp
next
  case (Cons p rest)
  obtain j tr where p: "p = (j, tr)" by (cases p)
  show ?case
    unfolding p update_trackers_Cons snd_conv Cons.IH by simp
qed

lemma update_trackers_other:
  "i \<notin> set (map fst trks) \<Longrightarrow> snd (update_trackers ext gray trks conf) i = conf i"
  by (induction trks arbitrary: conf)
     (auto simp: update_trackers_Cons simp del: update_trackers.simps(2))

lemma update_trackers_conf:
  "distinct (map fst trks) \<Longrightarrow> (i, tracker) \<in> set trks \<Longrightarrow>
   snd (update_trackers ext gray trks conf) i = Some (snd (tracker_update ext tracker gray))"
proof (induction trks arbitrary: conf)
  case Nil
  then show ?case by simp
next
  case (Cons p rest)
  obtain j tr where p: "p = (j, tr)" by (cases p)
  show ?case
  proof (cases "(i, tracker) = (j, tr)")
    case True
    then have "i \<notin> set (map fst rest)" using Cons.prems(1) p by auto
    have "snd (update_trackers ext gray rest (conf(i \<mapsto> snd (tracker_update ext tracker gray)))) i
            = (conf(i \<mapsto> snd (tracker_update ext tracker gray))) i"
      by (rule update_trackers_other[OF \<open>i \<notin> set (map fst rest)\<close>])
    then show ?thesis
      using True by (simp add: p update_trackers_Cons del: update_trackers.simps(2))
  next
    case False
    then have "(i, tracker) \<in> set rest" using Cons.prems(2) p by auto
    with Cons.IH Cons.prems(1) show ?thesis
      by (simp add: p update_trackers_Cons del: update_trackers.simps(2))
  qed
qed

lemma updated_keys: "map fst (updated ext gray trks) = map fst trks"
  by (induction trks) (auto simp: updated_def)

lemma updated_length: "length (updated ext gray trks) = length trks"
  by (simp add: updated_def)

lemma numbered_Nil [simp]: "numbered ident [] = []"
  by (simp add: numbered_def)

lemma numbered_Cons: "numbered ident (x # xs) = (ident + 1, x) # numbered (ident + 1) xs"
proof -
  have e: "ident + int (length (x # xs)) = ident + 1 + int (length xs)" by simp
  have "[ident + 1..ident + 1 + int (length xs)] =
          (ident + 1) # [ident + 1 + 1..ident + 1 + int (length xs)]"
    by (rule upto_rec1) simp
  then show ?thesis
    unfolding numbered_def e by simp
qed

lemma numbered_keys: "map fst (numbered ident xs) = [ident + 1..ident + int (length xs)]"
  by (simp add: numbered_def)

lemma dict_set_append: "k \<notin> set (map fst kvs) \<Longrightarrow> dict_set kvs k v = kvs @ [(k, v)]"
  by (induction kvs) auto

lemma spawn_faces_eq:
  assumes "\<forall>k\<in>set (map fst trks). k \<le> ident"
  shows "spawn_faces ext gray T fcs (trks, conf, ident, out) =
           (trks @ map (\<lambda>(k, face). (k, fst (seeded ext gray face))) (numbered ident (pending_faces fcs)),
            fold (remember ext gray) (numbered ident (pending_faces fcs)) conf,
            ident + int (length (pending_faces fcs)),
            out @ map (\<lambda>(k, face). face_template ext T k 0 face) (numbered ident (pending_faces fcs)))"
  using assms
proof (induction fcs arbitrary: trks conf ident out)
  case Nil
  then show ?case by simp
next
  case (Cons x fcs)
  show ?case
  proof (cases x)
    case None
    then show ?thesis using Cons by simp
  next
    case (Some p)
    obtain fid face where p: "p = (fid, face)" by (cases p)
    obtain tr c where s: "seeded ext gray face = (tr, c)" by (cases "seeded ext gray face")
    have fresh: "ident + 1 \<notin> set (map fst trks)"
      using Cons.prems by auto
    have next_ok: "\<forall>k\<in>set (map fst (trks @ [(ident + 1, tr)])). k \<le> ident + 1"
      using Cons.prems by auto
    have step: "spawn_faces ext gray T (x # fcs) (trks, conf, ident, out) =
            spawn_faces ext gray T fcs
              (trks @ [(ident + 1, tr)], conf(ident + 1 \<mapsto> c), ident + 1,
               out @ [face_template ext T (ident + 1) 0 face])"
      using s[unfolded seeded_def] fresh by (simp add: Some p Let_def dict_set_append)
    have r: "remember ext gray (ident + 1, face) conf = conf(ident + 1 \<mapsto> c)"
      using s by (simp add: remember_def)
    show ?thesis
      unfolding step Cons.IH[OF next_ok]
      by (simp add: Some p numbered_Cons s r)
  qed
qed

lemma remember_other:
  "k \<notin> set (map fst xs) \<Longrightarrow> fold (remember ext gray) xs m k = m k"
  by (induction xs arbitrary: m) (auto simp: remember_def)

lemma remember_dom:
  "dom (fold (remember ext gray) xs m) = dom m \<union> set (map fst xs)"
  by (induction xs arbitrary: m) (auto simp: remember_def)

lemma coast_eq:
  assumes "unm \<inter> set (map fst trks) \<subseteq> dom conf"
  shows "coast ext T unm conf trks out =
           Inr (out @ map (\<lambda>(i, tracker). face_template ext T i (the (conf i)) (get_position ext tracker))
                        (filter (\<lambda>(i, tracker). i \<in> unm) trks))"
  using assms
proof (induction trks arbitrary: out)
  case Nil
  then show ?case by simp
next
  case (Cons p trks)
  obtain i tracker where p: "p = (i, tracker)" by (cases p)
  have sub: "unm \<inter> set (map fst trks) \<subseteq> dom conf" using Cons.prems by auto
  show ?case
  proof (cases "i \<in> unm")
    case False
    then show ?thesis using Cons.IH[OF sub] by (simp add: p)
  next
    case True
    then obtain c where "conf i = Some c" using Cons.prems p by auto
    then show ?thesis using True Cons.IH[OF sub] by (simp add: p)
  qed
qed

lemma map_fst_relabel: "map fst (map (\<lambda>(k, x). (k, h x)) xs) = map fst xs"
  by (induction xs) auto

lemma spawn_trackers_keys:
  "map fst (spawn_trackers ext gray ident boxes) = [ident + 1..ident + int (length boxes)]"
  unfolding spawn_trackers_def by (simp only: map_fst_relabel numbered_keys)

lemma spawn_records_ids:
  "map rec_identifier (spawn_records ext T ident boxes) = [ident + 1..ident + int (length boxes)]"
proof -
  have "map rec_identifier (map (\<lambda>(k, face). face_template ext T k 0 face) xs) = map fst xs" for xs
    by (induction xs) (auto simp: face_template_def)
  then show ?thesis
    unfolding spawn_records_def by (simp only: numbered_keys)
qed

lemma coast_records_ids:
  "map rec_identifier (coast_records ext T unm conf trks) = filter (\<lambda>k. k \<in> unm) (map fst trks)"
  unfolding coast_records_def
  by (induction trks) (auto simp: face_template_def)

lemma coast_records_append_fresh:
  assumes "unm \<inter> set (map fst new) = {}"
  shows "coast_records ext T unm conf (trks @ new) = coast_records ext T unm conf trks"
proof -
  have "filter (\<lambda>(i, tracker). i \<in> unm) new = []"
    using assms unfolding filter_empty_conv by force
  then show ?thesis by (simp add: coast_records_def)
qed

lemma coast_records_cong:
  assumes "\<forall>i\<in>unm. conf i = conf' i"
  shows "coast_records ext T unm conf trks = coast_records ext T unm conf' trks"
  using assms unfolding coast_records_def by (induction trks) auto

lemma track_faces_Inr:
  assumes run: "track_faces ext gray T faces st = Inr st'"
    and dist: "distinct (map fst (trackers st))"
    and le: "\<forall>k\<in>set (map fst (trackers st)). k \<le> identifier st"
  obtains trks2 unm2 fcs2 out2 where
    "match_faces ext gray T faces (updated ext gray (trackers st))
       (snd (update_trackers ext gray (trackers st) (confidences st))) (foutput st)
       = Inr (trks2, unm2, fcs2, out2)"
    "st' = st\<lparr>trackers := trks2 @ spawn_trackers ext gray (identifier st) (pending_faces fcs2),
              confidences := fold (remember ext gray) (numbered (identifier st) (pending_faces fcs2))
                               (snd (update_trackers ext gray (trackers st) (confidences st))),
              identifier := identifier st + int (length (pending_faces fcs2)),
              foutput := out2 @ spawn_records ext T (identifier st) (pending_faces fcs2) @
                         coast_records ext T unm2
                           (snd (update_trackers ext gray (trackers st) (confidences st))) trks2\<rparr>"
proof -
  obtain trks1 conf1 where u: "update_trackers ext gray (trackers st) (confidences st) = (trks1, conf1)"
    by (cases "update_trackers ext gray (trackers st) (confidences st)")
  have t1: "trks1 = updated ext gray (trackers st)"
    using update_trackers_fst[of ext gray "trackers st" "confidences st"] u by simp
  have c1: "conf1 = snd (update_trackers ext gray (trackers st) (confidences st))"
    using u by simp
  have dom1: "dom conf1 = dom (confidences st) \<union> set (map fst (trackers st))"
    unfolding c1 by (rule update_trackers_dom)
  have keys1: "map fst trks1 = map fst (trackers st)"
    unfolding t1 by (rule updated_keys)
  from run obtain trks2 unm2 fcs2 out2 where
    m: "match_faces ext gray T faces trks1 conf1 (foutput st) = Inr (trks2, unm2, fcs2, out2)"
    unfolding track_faces_def u by (auto split: sum.splits)
  have d1: "distinct (map fst trks1)" using dist by (simp add: keys1)
  from match_faces_effect[OF m d1]
  have inv: "match_inv trks1 faces (trks2, unm2, fcs2, out2)"
    and sub: "unm2 \<subseteq> set (map fst trks1)" by blast+
  have keys2: "map fst trks2 = map fst (trackers st)"
    using match_inv_keys[OF inv] by (simp add: keys1)
  have le2: "\<forall>k\<in>set (map fst trks2). k \<le> identifier st"
    using le keys2 by simp
  let ?boxes = "pending_faces fcs2"
  let ?conf3 = "fold (remember ext gray) (numbered (identifier st) ?boxes) conf1"
  let ?trks3 = "trks2 @ spawn_trackers ext gray (identifier st) ?boxes"
  let ?out3 = "out2 @ spawn_records ext T (identifier st) ?boxes"
  have sp: "spawn_faces ext gray T fcs2 (trks2, conf1, identifier st, out2) =
              (?trks3, ?conf3, identifier st + int (length ?boxes), ?out3)"
    unfolding spawn_faces_eq[OF le2] spawn_trackers_def spawn_records_def ..
  have unm_le: "k \<le> identifier st" if "k \<in> unm2" for k
    using that sub le by (auto simp: keys1)
  have unm_dom: "unm2 \<subseteq> dom conf1"
    using sub by (auto simp: dom1 keys1)
  have "unm2 \<inter> set (map fst ?trks3) \<subseteq> dom ?conf3"
    using unm_dom by (auto simp: remember_dom)
  from coast_eq[OF this, of ext T ?out3]
  have co: "coast ext T unm2 ?conf3 ?trks3 ?out3 = Inr (?out3 @ coast_records ext T unm2 ?conf3 ?trks3)"
    by (simp add: coast_records_def)
  have fresh: "unm2 \<inter> set (map fst (spawn_trackers ext gray (identifier st) ?boxes)) = {}"
    using unm_le by (fastforce simp: spawn_trackers_keys)
  have same: "\<forall>i\<in>unm2. ?conf3 i = conf1 i"
  proof
    fix i assume "i \<in> unm2"
    then have "i \<notin> set (map fst (numbered (identifier st) ?boxes))"
      using unm_le[of i] by (simp add: numbered_keys)
    then show "?conf3 i = conf1 i" by (rule remember_other)
  qed
  have cr: "coast_records ext T unm2 ?conf3 ?trks3 = coast_records ext T unm2 conf1 trks2"
    unfolding coast_records_append_fresh[OF fresh] by (rule coast_records_cong[OF same])
  have "st' = st\<lparr>trackers := ?trks3, confidences := ?conf3,
              identifier := identifier st + int (length ?boxes),
              foutput := ?out3 @ coast_records ext T unm2 conf1 trks2\<rparr>"
    using run unfolding track_faces_def u by (simp add: m sp co cr)
  then show ?thesis
    using m that unfolding t1 c1 by simp
qed

subsection \<open>The invariant of the run\<close>

lemma track_init_inv: "track_inv (track_init shot detection)"
  by (simp add: track_inv_def track_init_def)

lemma shot_check_cases:
  assumes "shot_check st timestamp = Inr st1"
  obtains shot g where "shot_send (shotGenerator st) timestamp = (Inr shot, g)"
    and "st1 = (if truthy shot
                then st\<lparr>shotGenerator := g, trackers := [], confidences := Map.empty\<rparr>
                else st\<lparr>shotGenerator := g\<rparr>)"
  using assms unfolding shot_check_def
  by (cases "shot_send (shotGenerator st) timestamp") (auto split: sum.splits)

lemma shot_check_inv:
  assumes "shot_check st timestamp = Inr st1" and "track_inv st"
  shows "track_inv st1 \<and> identifier st1 = identifier st \<and> foutput st1 = foutput st \<and>
         faceGenerator st1 = faceGenerator st \<and>
         (trackers st1 = trackers st \<and> confidences st1 = confidences st \<or>
          trackers st1 = [] \<and> confidences st1 = Map.empty)"
proof -
  from assms(1) obtain shot g where
    "st1 = (if truthy shot
            then st\<lparr>shotGenerator := g, trackers := [], confidences := Map.empty\<rparr>
            else st\<lparr>shotGenerator := g\<rparr>)"
    by (rule shot_check_cases)
  then show ?thesis
    using assms(2) by (auto simp: track_inv_def)
qed

lemma track_frame_Inr:
  assumes "track_frame ext st (timestamp, gray) = Inr st'"
  obtains st1 T faces g' where "shot_check st timestamp = Inr st1"
    and "face_send (faceGenerator st1) timestamp = ((T, faces), g')"
    and "track_faces ext gray T faces (st1\<lparr>faceGenerator := g'\<rparr>) = Inr st'"
  using assms
  by (cases "face_send (faceGenerator (projr (shot_check st timestamp))) timestamp")
     (auto split: sum.splits prod.splits)

lemma track_faces_complete:
  assumes run: "track_faces ext gray T faces st = Inr st'" and inv: "track_inv st"
  shows "\<exists>new. foutput st' = foutput st @ new \<and>
           mset (map rec_identifier new) =
             mset (map fst (trackers st)) + mset [identifier st + 1..identifier st'] \<and>
           map fst (trackers st') = map fst (trackers st) @ [identifier st + 1..identifier st'] \<and>
           identifier st \<le> identifier st' \<and> track_inv st'"
proof -
  have dist: "distinct (map fst (trackers st))"
    and le: "\<forall>k\<in>set (map fst (trackers st)). k \<le> identifier st"
    and ole: "\<forall>r\<in>set (foutput st). rec_identifier r \<le> identifier st"
    using inv by (simp_all add: track_inv_def)
  let ?trks1 = "updated ext gray (trackers st)"
  let ?conf1 = "snd (update_trackers ext gray (trackers st) (confidences st))"
  from track_faces_Inr[OF run dist le] obtain trks2 unm2 fcs2 out2 where
    m: "match_faces ext gray T faces ?trks1 ?conf1 (foutput st) = Inr (trks2, unm2, fcs2, out2)"
    and st': "st' = st\<lparr>trackers := trks2 @ spawn_trackers ext gray (identifier st) (pending_faces fcs2),
              confidences := fold (remember ext gray) (numbered (identifier st) (pending_faces fcs2)) ?conf1,
              identifier := identifier st + int (length (pending_faces fcs2)),
              foutput := out2 @ spawn_records ext T (identifier st) (pending_faces fcs2) @
                         coast_records ext T unm2 ?conf1 trks2\<rparr>"
    by blast
  have d1: "distinct (map fst ?trks1)" using dist by (simp add: updated_keys)
  from match_faces_effect[OF m d1] obtain newm where
    inv2: "match_inv ?trks1 faces (trks2, unm2, fcs2, out2)"
    and o2: "out2 = foutput st @ newm"
    and ms: "mset (map rec_identifier newm) = mset (filter (\<lambda>k. k \<notin> unm2) (map fst ?trks1))"
    by blast
  have keys2: "map fst trks2 = map fst (trackers st)"
    using match_inv_keys[OF inv2] by (simp add: updated_keys)
  let ?boxes = "pending_faces fcs2"
  let ?new = "newm @ spawn_records ext T (identifier st) ?boxes @ coast_records ext T unm2 ?conf1 trks2"
  let ?ks = "map fst (trackers st)"
  have id': "identifier st' = identifier st + int (length ?boxes)"
    using st' by simp
  have part: "mset (filter (\<lambda>k. k \<notin> unm2) ?ks) + mset (filter (\<lambda>k. k \<in> unm2) ?ks) = mset ?ks"
    by (induction ?ks) auto
  have "map rec_identifier ?new =
          map rec_identifier newm @ [identifier st + 1..identifier st'] @ filter (\<lambda>k. k \<in> unm2) ?ks"
    by (simp add: spawn_records_ids coast_records_ids keys2 id')
  then have "mset (map rec_identifier ?new) =
          mset (filter (\<lambda>k. k \<notin> unm2) ?ks) + mset [identifier st + 1..identifier st'] +
          mset (filter (\<lambda>k. k \<in> unm2) ?ks)"
    using ms by (simp only: mset_append updated_keys add.assoc)
  also have "\<dots> = (mset (filter (\<lambda>k. k \<notin> unm2) ?ks) + mset (filter (\<lambda>k. k \<in> unm2) ?ks)) +
          mset [identifier st + 1..identifier st']"
    by (simp only: ac_simps)
  finally have ids: "mset (map rec_identifier ?new) = mset ?ks + mset [identifier st + 1..identifier st']"
    unfolding part .
  have out: "foutput st' = foutput st @ ?new"
    using st' o2 by simp
  have keys': "map fst (trackers st') = ?ks @ [identifier st + 1..identifier st']"
    using st' by (simp add: keys2 spawn_trackers_keys)
  have mono: "identifier st \<le> identifier st'"
    using id' by simp
  have "distinct (map fst (trackers st'))"
    unfolding keys' using dist le by auto
  moreover have "\<forall>k\<in>set (map fst (trackers st')). k \<le> identifier st'"
    unfolding keys' using le mono by auto
  moreover have "\<forall>r\<in>set (foutput st'). rec_identifier r \<le> identifier st'"
  proof
    fix r assume "r \<in> set (foutput st')"
    then consider "r \<in> set (foutput st)" | "r \<in> set ?new"
      unfolding out by auto
    then show "rec_identifier r \<le> identifier st'"
    proof cases
      case 1
      then show ?thesis using ole mono by force
    next
      case 2
      then have "rec_identifier r \<in># mset (map rec_identifier ?new)"
        by (metis image_eqI set_map set_mset_mset)
      then have "rec_identifier r \<in> set ?ks \<union> set [identifier st + 1..identifier st']"
        unfolding ids by simp
      then show ?thesis using le mono by auto
    qed
  qed
  ultimately have "track_inv st'" by (simp add: track_inv_def)
  then show ?thesis
    using out ids keys' mono by blast
qed

lemma track_frame_inv:
  assumes run: "track_frame ext st (timestamp, gray) = Inr st'" and inv: "track_inv st"
  shows "track_inv st' \<and> identifier st \<le> identifier st'"
proof -
  from run obtain st1 T faces g' where
    sc: "shot_check st timestamp = Inr st1"
    and tf: "track_faces ext gray T faces (st1\<lparr>faceGenerator := g'\<rparr>) = Inr st'"
    by (rule track_frame_Inr)
  from shot_check_inv[OF sc inv]
  have i1: "track_inv (st1\<lparr>faceGenerator := g'\<rparr>)" and id1: "identifier st1 = identifier st"
    by (auto simp: track_inv_def)
  from track_faces_complete[OF tf i1] id1 show ?thesis by auto
qed

lemma track_run_inv:
  "track_run ext st frames = Inr st' \<Longrightarrow> track_inv st \<Longrightarrow>
   track_inv st' \<and> identifier st \<le> identifier st'"
proof (induction frames arbitrary: st)
  case Nil
  then show ?case by simp
next
  case (Cons fr frames)
  obtain timestamp gray where fr: "fr = (timestamp, gray)" by (cases fr)
  from Cons.prems(1) obtain st1 where
    s1: "track_frame ext st (timestamp, gray) = Inr st1" and s2: "track_run ext st1 frames = Inr st'"
    unfolding fr by (auto split: sum.splits)
  from track_frame_inv[OF s1 Cons.prems(2)] Cons.IH[OF s2] show ?case by auto
qed

subsection \<open>The sample run\<close>

lemma sample_run: "track sample [(1, ())] [5] sample_detection = Inr sample_state"
  by (simp add: track_def track_init_def sample_detection_def sample_state_def shot_check_def
      shot_while_def face_while_def track_faces_def match_faces_def sample_def face_template_def
      py_int_def)

lemma sample_shot_check: "shot_check sample_state 2 = Inr sample_state"
  by (simp add: sample_state_def shot_check_def shot_while_def)

lemma sample_frame: "track_frame sample sample_state (2, ()) = Inr sample_next"
  by (simp add: sample_state_def sample_next_def shot_check_def
      shot_while_def face_while_def track_faces_def match_faces_def sample_def face_template_def
      py_int_def overlap_areas_def np_zeros_def cost_matrix_def np_max_def diagonal_def
      numeral_2_eq_2 upt_rec)

lemma sample_state_inv: "track_inv sample_state"
  by (simp add: track_inv_def sample_state_def)

subsection \<open>Records and identifiers\<close>

text \<open>
  C5. In a frame that is processed to its end, with k tracks alive after the shot check
  and m tracks spawned (they get the identifiers after the counter), k + m records are
  written, and their identifiers are those of the k tracks and of the m new ones, each
  once.
\<close>

theorem output_completeness:
  assumes "track_inv st"
    and "shot_check st timestamp = Inr st1"
    and "track_frame ext st (timestamp, gray) = Inr st'"
  shows "\<exists>new. foutput st' = foutput st @ new \<and>
           length new = length (trackers st1) + length [identifier st + 1..identifier st'] \<and>
           mset (map rec_identifier new) =
             mset (map fst (trackers st1)) + mset [identifier st + 1..identifier st'] \<and>
           map fst (trackers st') = map fst (trackers st1) @ [identifier st + 1..identifier st'] \<and>
           distinct (map fst (trackers st'))"
proof -
  from assms(3) obtain st1' T faces g' where
    sc: "shot_check st timestamp = Inr st1'"
    and tf': "track_faces ext gray T faces (st1'\<lparr>faceGenerator := g'\<rparr>) = Inr st'"
    by (rule track_frame_Inr)
  have e: "st1' = st1" using sc assms(2) by simp
  have tf: "track_faces ext gray T faces (st1\<lparr>faceGenerator := g'\<rparr>) = Inr st'"
    using tf' unfolding e .
  note s1 = shot_check_inv[OF assms(2,1)]
  have "track_inv st1"
    using s1 by blast
  then have i1: "track_inv (st1\<lparr>faceGenerator := g'\<rparr>)"
    by (simp add: track_inv_def)
  have id1: "identifier st1 = identifier st" and o1: "foutput st1 = foutput st"
    using s1 by simp_all
  from track_faces_complete[OF tf i1] obtain new where
    c: "foutput st' = foutput (st1\<lparr>faceGenerator := g'\<rparr>) @ new"
       "mset (map rec_identifier new) =
          mset (map fst (trackers (st1\<lparr>faceGenerator := g'\<rparr>))) +
          mset [identifier (st1\<lparr>faceGenerator := g'\<rparr>) + 1..identifier st']"
       "map fst (trackers st') = map fst (trackers (st1\<lparr>faceGenerator := g'\<rparr>)) @
          [identifier (st1\<lparr>faceGenerator := g'\<rparr>) + 1..identifier st']"
       "track_inv st'"
    by metis
  have n1: "foutput st' = foutput st @ new"
    using c(1) o1 by simp
  have n2: "mset (map rec_identifier new) =
       mset (map fst (trackers st1)) + mset [identifier st + 1..identifier st']"
    using c(2) id1 by simp
  have n3: "map fst (trackers st') = map fst (trackers st1) @ [identifier st + 1..identifier st']"
    using c(3) id1 by simp
  have "size (mset (map rec_identifier new)) =
          size (mset (map fst (trackers st1)) + mset [identifier st + 1..identifier st'])"
    unfolding n2 ..
  then have len: "length new = length (trackers st1) + length [identifier st + 1..identifier st']"
    by simp
  have d: "distinct (map fst (trackers st'))"
    using c(4) by (simp add: track_inv_def)
  show ?thesis
    by (intro exI[of _ new] conjI n1 len n2 n3 d)
qed

theorem output_completeness_witness:
  "track_inv sample_state \<and> shot_check sample_state 2 = Inr sample_state \<and>
   track_frame sample sample_state (2, ()) = Inr sample_next \<and>
   (\<exists>new. foutput sample_next = foutput sample_state @ new \<and>
      length new = length (trackers sample_state) +
                   length [identifier sample_state + 1..identifier sample_next] \<and>
      mset (map rec_identifier new) =
        mset (map fst (trackers sample_state)) +
        mset [identifier sample_state + 1..identifier sample_next] \<and>
      map fst (trackers sample_next) =
        map fst (trackers sample_state) @ [identifier sample_state + 1..identifier sample_next] \<and>
      distinct (map fst (trackers sample_next))) \<and>
   length (trackers sample_state) = 1 \<and>
   [identifier sample_state + 1..identifier sample_next] = [2] \<and>
   foutput sample_next =
     foutput sample_state @ [FaceRecord 2 1 0 0 10 10 (1 / 2), FaceRecord 2 2 50 50 60 60 0]"
proof -
  note ex = output_completeness[OF sample_state_inv sample_shot_check sample_frame]
  have k: "length (trackers sample_state) = 1"
    by (simp add: sample_state_def)
  have m: "[identifier sample_state + 1..identifier sample_next] = [2]"
    by (simp add: sample_state_def sample_next_def upto_rec1)
  have out: "foutput sample_next =
      foutput sample_state @ [FaceRecord 2 1 0 0 10 10 (1 / 2), FaceRecord 2 2 50 50 60 60 0]"
    by (simp add: sample_state_def sample_next_def)
  show ?thesis
    by (intro conjI sample_state_inv sample_shot_check sample_frame ex k m out)
qed

text \<open>
  C6. At every state a run reaches, no live identifier and no identifier written so far
  exceeds the counter. The tracks the next frame creates get the identifiers that follow
  the counter, one by one in the order of their creation, after the identifiers the
  frame keeps (all of them, or none after a shot cut); the counter never decreases,
  with or without a cut, and the live identifiers stay distinct.
\<close>

theorem identifiers_never_reused:
  assumes "track_run ext (track_init shot detection) frames = Inr st"
    and "track_frame ext st (timestamp, gray) = Inr st'"
  shows "identifier st \<le> identifier st' \<and>
         (\<forall>k\<in>set (map fst (trackers st)). k \<le> identifier st) \<and>
         (\<forall>r\<in>set (foutput st). rec_identifier r \<le> identifier st) \<and>
         (\<exists>kept. (kept = map fst (trackers st) \<or> kept = []) \<and>
            map fst (trackers st') = kept @ [identifier st + 1..identifier st']) \<and>
         distinct (map fst (trackers st'))"
proof -
  have inv: "track_inv st"
    using track_run_inv[OF assms(1) track_init_inv] by simp
  from assms(2) obtain st1 T faces g' where
    sc: "shot_check st timestamp = Inr st1"
    and tf: "track_faces ext gray T faces (st1\<lparr>faceGenerator := g'\<rparr>) = Inr st'"
    by (rule track_frame_Inr)
  note s1 = shot_check_inv[OF sc inv]
  have "track_inv st1"
    using s1 by blast
  then have i1: "track_inv (st1\<lparr>faceGenerator := g'\<rparr>)"
    by (simp add: track_inv_def)
  have id1: "identifier st1 = identifier st"
    using s1 by simp
  have k1: "trackers st1 = trackers st \<or> trackers st1 = []"
    using s1 by blast
  from track_faces_complete[OF tf i1] obtain new where
    c: "map fst (trackers (st1\<lparr>faceGenerator := g'\<rparr>)) @
          [identifier (st1\<lparr>faceGenerator := g'\<rparr>) + 1..identifier st'] = map fst (trackers st')"
       "identifier (st1\<lparr>faceGenerator := g'\<rparr>) \<le> identifier st'" "track_inv st'"
    by metis
  have keys': "map fst (trackers st') = map fst (trackers st1) @ [identifier st + 1..identifier st']"
    using c(1) id1 by simp
  have mono: "identifier st \<le> identifier st'"
    using c(2) id1 by simp
  have d: "distinct (map fst (trackers st'))"
    using c(3) by (simp add: track_inv_def)
  have keys: "\<exists>kept. (kept = map fst (trackers st) \<or> kept = []) \<and>
            map fst (trackers st') = kept @ [identifier st + 1..identifier st']"
  proof (rule disjE[OF k1])
    assume "trackers st1 = trackers st"
    then show ?thesis
      using keys' by (intro exI[of _ "map fst (trackers st)"]) simp
  next
    assume "trackers st1 = []"
    then show ?thesis
      using keys' by (intro exI[of _ "[]"]) simp
  qed
  have b: "\<forall>k\<in>set (map fst (trackers st)). k \<le> identifier st"
    "\<forall>r\<in>set (foutput st). rec_identifier r \<le> identifier st"
    using inv by (simp_all add: track_inv_def)
  show ?thesis
    by (intro conjI mono b keys d)
qed

theorem identifiers_never_reused_witness:
  "track_run sample (track_init [5] sample_detection) [(1, ())] = Inr sample_state \<and>
   track_frame sample sample_state (2, ()) = Inr sample_next \<and>
   identifier sample_state \<le> identifier sample_next \<and>
   identifier sample_state = 1 \<and> identifier sample_next = 2 \<and>
   map fst (trackers sample_state) = [1] \<and>
   map fst (trackers sample_next) = map fst (trackers sample_state) @ [2] \<and>
   map rec_identifier (foutput sample_state) = [1]"
proof -
  have r: "track_run sample (track_init [5] sample_detection) [(1, ())] = Inr sample_state"
    using sample_run by (simp add: track_def)
  have mono: "identifier sample_state \<le> identifier sample_next"
    using identifiers_never_reused[OF r sample_frame] by blast
  have vals: "identifier sample_state = 1" "identifier sample_next = 2"
    "map fst (trackers sample_state) = [1]"
    "map fst (trackers sample_next) = map fst (trackers sample_state) @ [2]"
    "map rec_identifier (foutput sample_state) = [1]"
    by (simp_all add: sample_state_def sample_next_def)
  show ?thesis
    by (intro conjI r sample_frame mono vals)
qed

section \<open>Frames without a matching stage, shot cuts and coasting\<close>

subsection \<open>No tracker or no face\<close>

lemma coast_records_all:
  "set (map fst trks) \<subseteq> unm \<Longrightarrow>
   coast_records ext T unm conf trks =
     map (\<lambda>(i, tracker). face_template ext T i (the (conf i)) (get_position ext tracker)) trks"
proof -
  assume "set (map fst trks) \<subseteq> unm"
  then have "filter (\<lambda>(i, tracker). i \<in> unm) trks = trks"
    by (auto simp: filter_id_conv)
  then show ?thesis by (simp add: coast_records_def)
qed

lemma pending_faces_all: "pending_faces (map Some faces) = map snd faces"
  by (induction faces) auto

lemma match_faces_skipped:
  "trks = [] \<or> faces = [] \<Longrightarrow>
   match_faces ext gray T faces trks conf out = Inr (trks, set (map fst trks), map Some faces, out)"
  unfolding match_faces_def Let_def by auto

lemma track_faces_skipped:
  assumes empty: "trackers st = [] \<or> faces = []"
    and le: "\<forall>k\<in>set (map fst (trackers st)). k \<le> identifier st"
  shows "track_faces ext gray T faces st =
           Inr (st\<lparr>trackers := updated ext gray (trackers st) @
                               spawn_trackers ext gray (identifier st) (map snd faces),
                   confidences := fold (remember ext gray) (numbered (identifier st) (map snd faces))
                                    (snd (update_trackers ext gray (trackers st) (confidences st))),
                   identifier := identifier st + int (length faces),
                   foutput := foutput st @ spawn_records ext T (identifier st) (map snd faces) @
                              map (\<lambda>(i, tracker).
                                     face_template ext T i
                                       (the (snd (update_trackers ext gray (trackers st) (confidences st)) i))
                                       (get_position ext tracker))
                                (updated ext gray (trackers st))\<rparr>)"
proof -
  obtain trks1 conf1 where u: "update_trackers ext gray (trackers st) (confidences st) = (trks1, conf1)"
    by (cases "update_trackers ext gray (trackers st) (confidences st)")
  have t1: "trks1 = updated ext gray (trackers st)"
    using update_trackers_fst[of ext gray "trackers st" "confidences st"] u by simp
  have c1: "snd (update_trackers ext gray (trackers st) (confidences st)) = conf1"
    using u by simp
  have dom1: "dom conf1 = dom (confidences st) \<union> set (map fst (trackers st))"
    unfolding c1[symmetric] by (rule update_trackers_dom)
  have keys1: "map fst trks1 = map fst (trackers st)"
    unfolding t1 by (rule updated_keys)
  have e1: "trks1 = [] \<or> faces = []"
    using empty t1 by (auto simp: updated_def)
  have m: "match_faces ext gray T faces trks1 conf1 (foutput st) =
             Inr (trks1, set (map fst trks1), map Some faces, foutput st)"
    by (rule match_faces_skipped[OF e1])
  have le1: "\<forall>k\<in>set (map fst trks1). k \<le> identifier st"
    using le keys1 by simp
  let ?boxes = "map snd faces"
  let ?unm = "set (map fst trks1)"
  let ?conf3 = "fold (remember ext gray) (numbered (identifier st) ?boxes) conf1"
  let ?trks3 = "trks1 @ spawn_trackers ext gray (identifier st) ?boxes"
  let ?out3 = "foutput st @ spawn_records ext T (identifier st) ?boxes"
  have sp: "spawn_faces ext gray T (map Some faces) (trks1, conf1, identifier st, foutput st) =
              (?trks3, ?conf3, identifier st + int (length faces), ?out3)"
    unfolding spawn_faces_eq[OF le1] spawn_trackers_def spawn_records_def pending_faces_all
    by simp
  have "?unm \<inter> set (map fst ?trks3) \<subseteq> dom ?conf3"
    by (auto simp: remember_dom dom1 keys1)
  from coast_eq[OF this, of ext T ?out3]
  have co: "coast ext T ?unm ?conf3 ?trks3 ?out3 = Inr (?out3 @ coast_records ext T ?unm ?conf3 ?trks3)"
    by (simp add: coast_records_def)
  have fresh: "?unm \<inter> set (map fst (spawn_trackers ext gray (identifier st) ?boxes)) = {}"
    using le1 by (fastforce simp: spawn_trackers_keys)
  have same: "\<forall>i\<in>?unm. ?conf3 i = conf1 i"
  proof
    fix i assume "i \<in> ?unm"
    then have "i \<notin> set (map fst (numbered (identifier st) ?boxes))"
      using le1 by (auto simp: numbered_keys)
    then show "?conf3 i = conf1 i" by (rule remember_other)
  qed
  have "coast_records ext T ?unm ?conf3 ?trks3 = coast_records ext T ?unm conf1 trks1"
    unfolding coast_records_append_fresh[OF fresh] by (rule coast_records_cong[OF same])
  also have "\<dots> = map (\<lambda>(i, tracker). face_template ext T i (the (conf1 i)) (get_position ext tracker)) trks1"
    by (rule coast_records_all) simp
  finally have cr: "coast_records ext T ?unm ?conf3 ?trks3 =
      map (\<lambda>(i, tracker). face_template ext T i (the (conf1 i)) (get_position ext tracker)) trks1" .
  have "track_faces ext gray T faces st =
          Inr (st\<lparr>trackers := ?trks3, confidences := ?conf3,
                  identifier := identifier st + int (length faces),
                  foutput := ?out3 @
                    map (\<lambda>(i, tracker). face_template ext T i (the (conf1 i)) (get_position ext tracker))
                      trks1\<rparr>)"
    unfolding track_faces_def u prod.case m sum.case sp co cr by simp
  then show ?thesis
    unfolding c1 t1[symmetric] by simp
qed

lemma update_trackers_solver:
  "update_trackers (ext\<lparr>hungarian_compute := h\<rparr>) gray trks conf = update_trackers ext gray trks conf"
  by (induction trks arbitrary: conf)
     (auto simp: update_trackers_Cons simp del: update_trackers.simps(2))

lemma spawn_faces_solver:
  "spawn_faces (ext\<lparr>hungarian_compute := h\<rparr>) gray T fcs S = spawn_faces ext gray T fcs S"
  by (induction ext gray T fcs S rule: spawn_faces.induct)
     (simp_all add: face_template_def Let_def split_beta)

lemma coast_solver:
  "coast (ext\<lparr>hungarian_compute := h\<rparr>) T unm conf trks out = coast ext T unm conf trks out"
  by (induction ext T unm conf trks out rule: coast.induct)
     (simp_all add: face_template_def split: option.splits)

lemma track_faces_solver:
  assumes "trackers st = [] \<or> faces = []"
  shows "track_faces (ext\<lparr>hungarian_compute := h\<rparr>) gray T faces st = track_faces ext gray T faces st"
proof -
  obtain trks1 conf1 where u: "update_trackers ext gray (trackers st) (confidences st) = (trks1, conf1)"
    by (cases "update_trackers ext gray (trackers st) (confidences st)")
  have t1: "trks1 = updated ext gray (trackers st)"
    using update_trackers_fst[of ext gray "trackers st" "confidences st"] u by simp
  have e1: "trks1 = [] \<or> faces = []"
    using assms t1 by (auto simp: updated_def)
  show ?thesis
    unfolding track_faces_def update_trackers_solver u prod.case
      match_faces_skipped[OF e1] sum.case spawn_faces_solver coast_solver ..
qed

text \<open>
  C10. When the frame has no live tracker or no face, the matching stage is skipped: the
  frame succeeds, every face of the frame spawns a new track (written with confidence
  0), every live tracker is updated and coasts (written at its own position with its new
  confidence), and the result does not depend on the solver, which is not consulted.
\<close>

theorem matching_skipped:
  assumes "trackers st = [] \<or> faces = []" and "track_inv st"
  shows "track_faces ext gray T faces st =
           Inr (st\<lparr>trackers := updated ext gray (trackers st) @
                               spawn_trackers ext gray (identifier st) (map snd faces),
                   confidences := fold (remember ext gray) (numbered (identifier st) (map snd faces))
                                    (snd (update_trackers ext gray (trackers st) (confidences st))),
                   identifier := identifier st + int (length faces),
                   foutput := foutput st @ spawn_records ext T (identifier st) (map snd faces) @
                              map (\<lambda>(i, tracker).
                                     face_template ext T i
                                       (the (snd (update_trackers ext gray (trackers st) (confidences st)) i))
                                       (get_position ext tracker))
                                (updated ext gray (trackers st))\<rparr>) \<and>
         track_faces (ext\<lparr>hungarian_compute := h\<rparr>) gray T faces st = track_faces ext gray T faces st"
proof -
  have le: "\<forall>k\<in>set (map fst (trackers st)). k \<le> identifier st"
    using assms(2) by (simp add: track_inv_def)
  show ?thesis
    by (intro conjI track_faces_skipped[OF assms(1) le] track_faces_solver[OF assms(1)])
qed

theorem matching_skipped_witness:
  "(trackers sample_state = [] \<or> ([] :: (int \<times> rect) list) = []) \<and> track_inv sample_state \<and>
   track_faces sample () 2 [] sample_state =
     Inr (sample_state\<lparr>foutput := foutput sample_state @ [FaceRecord 2 1 0 0 10 10 (1 / 2)]\<rparr>) \<and>
   track_faces (sample\<lparr>hungarian_compute := (\<lambda>m. [])\<rparr>) () 2 [] sample_state =
     track_faces sample () 2 [] sample_state"
proof -
  have h1: "trackers sample_state = [] \<or> ([] :: (int \<times> rect) list) = []" by simp
  note t = matching_skipped[OF h1 sample_state_inv, of sample "()" 2 "\<lambda>m. []"]
  have v: "track_faces sample () 2 [] sample_state =
     Inr (sample_state\<lparr>foutput := foutput sample_state @ [FaceRecord 2 1 0 0 10 10 (1 / 2)]\<rparr>)"
    unfolding t[THEN conjunct1]
    by (simp add: sample_state_def sample_def updated_def spawn_trackers_def spawn_records_def
        face_template_def py_int_def)
  show ?thesis
    by (intro conjI h1 sample_state_inv v t[THEN conjunct2])
qed

subsection \<open>Shot cuts\<close>

text \<open>
  A cut at a time other than 0.0 clears the trackers and the confidences before anything
  else in the frame; the matching stage is then skipped, every face of the frame spawns
  a track, and every record of the frame carries the confidence 0.
\<close>

lemma nonzero_cut_resets:
  assumes "shot_send (shotGenerator st) timestamp = (Inr (Some S), g)" and "S \<noteq> 0"
  shows "shot_check st timestamp =
           Inr (st\<lparr>shotGenerator := g, trackers := [], confidences := Map.empty\<rparr>)"
  using assms by (simp add: shot_check_def)

lemma cut_frame_spawns_all:
  assumes "shot_send (shotGenerator st) timestamp = (Inr (Some S), g)" and "S \<noteq> 0"
    and "face_send (faceGenerator st) timestamp = ((T, faces), g')"
  shows "track_frame ext st (timestamp, gray) =
           Inr (st\<lparr>shotGenerator := g, faceGenerator := g',
                   trackers := spawn_trackers ext gray (identifier st) (map snd faces),
                   confidences := fold (remember ext gray) (numbered (identifier st) (map snd faces))
                                    Map.empty,
                   identifier := identifier st + int (length faces),
                   foutput := foutput st @ spawn_records ext T (identifier st) (map snd faces)\<rparr>)"
proof -
  let ?st2 = "st\<lparr>shotGenerator := g, trackers := [], confidences := Map.empty, faceGenerator := g'\<rparr>"
  have "track_frame ext st (timestamp, gray) = track_faces ext gray T faces ?st2"
    using nonzero_cut_resets[OF assms(1,2)] assms(3) by simp
  also have "\<dots> = Inr (?st2\<lparr>trackers := updated ext gray (trackers ?st2) @
                               spawn_trackers ext gray (identifier ?st2) (map snd faces),
                   confidences := fold (remember ext gray) (numbered (identifier ?st2) (map snd faces))
                                    (snd (update_trackers ext gray (trackers ?st2) (confidences ?st2))),
                   identifier := identifier ?st2 + int (length faces),
                   foutput := foutput ?st2 @ spawn_records ext T (identifier ?st2) (map snd faces) @
                              map (\<lambda>(i, tracker).
                                     face_template ext T i
                                       (the (snd (update_trackers ext gray (trackers ?st2) (confidences ?st2)) i))
                                       (get_position ext tracker))
                                (updated ext gray (trackers ?st2))\<rparr>)"
    by (rule track_faces_skipped) simp_all
  finally show ?thesis
    by (simp add: updated_def)
qed

lemma spawn_records_confidence:
  "r \<in> set (spawn_records ext T ident boxes) \<Longrightarrow> rec_confidence r = 0 \<and> rec_t r = T"
  by (auto simp: spawn_records_def face_template_def)

text \<open>
  C7. A cut at 0.0 is consumed but clears nothing, since \<open>if shot:\<close> is false for 0.0.
  With the boundaries 0.0 and 0.0 in the shot file, the track spawned in the frame at 0.0
  is still live after the frame at 1.0 has consumed the second boundary, and it coasts
  in that frame with the confidence of its tracker.
\<close>

theorem zero_cut_keeps_tracks:
  "map_sum id (\<lambda>st. (shotGenerator st, trackers st, foutput st))
     (track sample [(0, ()), (1, ())] [0, 0] [(0, 7, (0, 0, 10, 10)), (9, 8, (0, 0, 10, 10))]) =
   Inr (ShotFound [], [(1, (0, 0, 10, 10))],
        [FaceRecord 0 1 0 0 10 10 0, FaceRecord 1 1 0 0 10 10 (1 / 2)])"
  by (simp add: track_def track_init_def shot_check_def
      shot_while_def face_while_def track_faces_def match_faces_def sample_def face_template_def
      py_int_def)

subsection \<open>Coasting\<close>

lemma coast_records_mem:
  "(i, tracker) \<in> set trks \<Longrightarrow> i \<in> unm \<Longrightarrow>
   face_template ext T i (the (conf i)) (get_position ext tracker)
     \<in> set (coast_records ext T unm conf trks)"
  unfolding coast_records_def by force

text \<open>
  C8. In a frame without a shot cut that is processed to its end, every track that was
  live at the start is live at the end, under the same identifier and in the same
  place of the dictionary, and its confidence is the one its tracker returned in this
  frame. Such a track either coasts: its tracker is the updated one, not seeded again,
  and its record carries the position of that tracker and that confidence; or the solver
  proposed it a face that passes the acceptance rule, on which it is seeded again. A
  track for which the solver proposed no face that passes the rule therefore coasts.
\<close>

theorem unmatched_tracks_coast:
  assumes inv: "track_inv st"
    and shot: "shot_send (shotGenerator st) timestamp = (Inr shot, g)" and nocut: "\<not> truthy shot"
    and fs: "face_send (faceGenerator st) timestamp = ((T, faces), g')"
    and run: "track_frame ext st (timestamp, gray) = Inr st'"
    and u: "u < length (trackers st)" and tu: "trackers st ! u = (i, tracker)"
    and up: "tracker_update ext tracker gray = (tracker1, c)"
  shows "take (length (trackers st)) (map fst (trackers st')) = map fst (trackers st) \<and>
         confidences st' i = Some c \<and>
         (\<exists>new. foutput st' = foutput st @ new \<and>
            (trackers st' ! u = (i, tracker1) \<and>
               face_template ext T i c (get_position ext tracker1) \<in> set new
             \<or>
             (\<exists>f. (u, f) \<in> set (hungarian_compute ext
                        (cost_matrix (overlap_areas ext (updated ext gray (trackers st)) faces))) \<and>
                  accepted_pair ext (updated ext gray (trackers st)) faces (u, f) \<and>
                  trackers st' ! u = (i, start_track ext tracker1 gray (snd (faces ! f))) \<and>
                  face_template ext T i c (snd (faces ! f)) \<in> set new)))"
proof -
  have dist: "distinct (map fst (trackers st))"
    and le: "\<forall>k\<in>set (map fst (trackers st)). k \<le> identifier st"
    using inv by (simp_all add: track_inv_def)
  let ?st2 = "st\<lparr>shotGenerator := g, faceGenerator := g'\<rparr>"
  have sc: "shot_check st timestamp = Inr (st\<lparr>shotGenerator := g\<rparr>)"
    using shot nocut by (simp add: shot_check_def)
  have tf: "track_faces ext gray T faces ?st2 = Inr st'"
    using run sc fs by simp
  let ?trks1 = "updated ext gray (trackers st)"
  let ?conf1 = "snd (update_trackers ext gray (trackers st) (confidences st))"
  have dist2: "distinct (map fst (trackers ?st2))" using dist by simp
  have le2: "\<forall>k\<in>set (map fst (trackers ?st2)). k \<le> identifier ?st2" using le by simp
  from track_faces_Inr[OF tf dist2 le2] obtain trks2 unm2 fcs2 out2 where
    m0: "match_faces ext gray T faces (updated ext gray (trackers ?st2))
       (snd (update_trackers ext gray (trackers ?st2) (confidences ?st2))) (foutput ?st2)
       = Inr (trks2, unm2, fcs2, out2)"
    and st0: "st' = ?st2\<lparr>trackers := trks2 @ spawn_trackers ext gray (identifier ?st2) (pending_faces fcs2),
              confidences := fold (remember ext gray) (numbered (identifier ?st2) (pending_faces fcs2))
                               (snd (update_trackers ext gray (trackers ?st2) (confidences ?st2))),
              identifier := identifier ?st2 + int (length (pending_faces fcs2)),
              foutput := out2 @ spawn_records ext T (identifier ?st2) (pending_faces fcs2) @
                         coast_records ext T unm2
                           (snd (update_trackers ext gray (trackers ?st2) (confidences ?st2))) trks2\<rparr>"
    by blast
  have m: "match_faces ext gray T faces ?trks1 ?conf1 (foutput st) = Inr (trks2, unm2, fcs2, out2)"
    using m0 by simp
  have st': "st' = ?st2\<lparr>trackers := trks2 @ spawn_trackers ext gray (identifier st) (pending_faces fcs2),
              confidences := fold (remember ext gray) (numbered (identifier st) (pending_faces fcs2)) ?conf1,
              identifier := identifier st + int (length (pending_faces fcs2)),
              foutput := out2 @ spawn_records ext T (identifier st) (pending_faces fcs2) @
                         coast_records ext T unm2 ?conf1 trks2\<rparr>"
    using st0 by simp
  have d1: "distinct (map fst ?trks1)" using dist by (simp add: updated_keys)
  from match_faces_effect[OF m d1] obtain newm where
    inv2: "match_inv ?trks1 faces (trks2, unm2, fcs2, out2)"
    and o2: "out2 = foutput st @ newm"
    and matched: "\<And>v. v < length ?trks1 \<Longrightarrow> fst (?trks1 ! v) \<notin> unm2 \<Longrightarrow>
               (\<exists>f. (v, f) \<in> set (hungarian_compute ext (cost_matrix (overlap_areas ext ?trks1 faces))) \<and>
                  accepted_pair ext ?trks1 faces (v, f) \<and>
                  trks2 ! v = (fst (?trks1 ! v), start_track ext (snd (?trks1 ! v)) gray (snd (faces ! f))) \<and>
                  matched_record ext T ?conf1 ?trks1 faces (v, f) \<in> set newm)"
    by blast
  have keys2: "map fst trks2 = map fst (trackers st)"
    using match_inv_keys[OF inv2] by (simp add: updated_keys)
  have len2: "length trks2 = length (trackers st)"
    using keys2 by (metis length_map)
  have u1: "?trks1 ! u = (i, tracker1)"
    using u tu up by (simp add: updated_def)
  have ul: "u < length ?trks1" using u by (simp add: updated_length)
  have "(i, tracker) \<in> set (trackers st)"
    using u tu by (metis nth_mem)
  then have c1: "?conf1 i = Some c"
    using update_trackers_conf[OF dist, of i tracker ext gray "confidences st"] up by simp
  have "i \<in> set (map fst (trackers st))"
    using \<open>(i, tracker) \<in> set (trackers st)\<close> by force
  then have ile: "i \<le> identifier st" using le by blast
  then have "i \<notin> set (map fst (numbered (identifier st) (pending_faces fcs2)))"
    by (simp add: numbered_keys)
  then have c3: "confidences st' i = Some c"
    unfolding st' using c1 by (simp add: remember_other)
  have live: "take (length (trackers st)) (map fst (trackers st')) = map fst (trackers st)"
    unfolding st' using keys2 len2 by simp
  have nth': "trackers st' ! u = trks2 ! u"
    unfolding st' using u len2 by (simp add: nth_append)
  let ?new = "newm @ spawn_records ext T (identifier st) (pending_faces fcs2) @
              coast_records ext T unm2 ?conf1 trks2"
  have out: "foutput st' = foutput st @ ?new"
    unfolding st' o2 by simp
  have branch: "trackers st' ! u = (i, tracker1) \<and>
               face_template ext T i c (get_position ext tracker1) \<in> set ?new
             \<or>
             (\<exists>f. (u, f) \<in> set (hungarian_compute ext (cost_matrix (overlap_areas ext ?trks1 faces))) \<and>
                  accepted_pair ext ?trks1 faces (u, f) \<and>
                  trackers st' ! u = (i, start_track ext tracker1 gray (snd (faces ! f))) \<and>
                  face_template ext T i c (snd (faces ! f)) \<in> set ?new)"
  proof (cases "i \<in> unm2")
    case True
    have "trks2 ! u = ?trks1 ! u"
      using inv2 ul u1 True by (simp add: match_inv_def updated_length)
    then have t2: "trks2 ! u = (i, tracker1)" using u1 by simp
    then have "(i, tracker1) \<in> set trks2"
      using u len2 by (metis nth_mem)
    from coast_records_mem[OF this True, of ext T ?conf1]
    have "face_template ext T i c (get_position ext tracker1) \<in> set ?new"
      using c1 by simp
    then show ?thesis using t2 nth' by simp
  next
    case False
    then have "fst (?trks1 ! u) \<notin> unm2" using u1 by simp
    from matched[OF ul this] obtain f where
      f: "(u, f) \<in> set (hungarian_compute ext (cost_matrix (overlap_areas ext ?trks1 faces)))"
        "accepted_pair ext ?trks1 faces (u, f)"
        "trks2 ! u = (fst (?trks1 ! u), start_track ext (snd (?trks1 ! u)) gray (snd (faces ! f)))"
        "matched_record ext T ?conf1 ?trks1 faces (u, f) \<in> set newm"
      by blast
    have t2: "trackers st' ! u = (i, start_track ext tracker1 gray (snd (faces ! f)))"
      using f(3) u1 nth' by simp
    have "matched_record ext T ?conf1 ?trks1 faces (u, f) = face_template ext T i c (snd (faces ! f))"
      using u1 c1 by simp
    then have "face_template ext T i c (snd (faces ! f)) \<in> set ?new"
      using f(4) by simp
    then show ?thesis using f(1,2) t2 by blast
  qed
  show ?thesis
    by (intro conjI live c3 exI[of _ ?new] out branch)
qed

theorem unmatched_tracks_coast_witness:
  "track_inv sample_next \<and>
   shot_send (shotGenerator sample_next) 3 = (Inr None, ShotWait 5 []) \<and> \<not> truthy None \<and>
   face_send (faceGenerator sample_next) 3 = ((3, []), FaceEnd) \<and>
   track_frame sample sample_next (3, ()) = Inr sample_coast \<and>
   1 < length (trackers sample_next) \<and> trackers sample_next ! 1 = (2, (50, 50, 60, 60)) \<and>
   tracker_update sample (50, 50, 60, 60) () = ((50, 50, 60, 60), 1 / 2) \<and>
   take (length (trackers sample_next)) (map fst (trackers sample_coast)) =
     map fst (trackers sample_next) \<and>
   confidences sample_coast 2 = Some (1 / 2) \<and>
   trackers sample_coast ! 1 = (2, (50, 50, 60, 60)) \<and>
   foutput sample_coast =
     foutput sample_next @ [FaceRecord 3 1 0 0 10 10 (1 / 2), FaceRecord 3 2 50 50 60 60 (1 / 2)]"
proof -
  have h1: "track_inv sample_next"
    by (simp add: track_inv_def sample_next_def)
  have h2: "shot_send (shotGenerator sample_next) 3 = (Inr None, ShotWait 5 [])"
    by (simp add: sample_next_def shot_while_def)
  have h3: "\<not> truthy None" by simp
  have h4: "face_send (faceGenerator sample_next) 3 = ((3, []), FaceEnd)"
    by (simp add: sample_next_def)
  have h5: "track_frame sample sample_next (3, ()) = Inr sample_coast"
    by (simp add: sample_next_def sample_coast_def shot_check_def shot_while_def track_faces_def
        match_faces_def sample_def face_template_def py_int_def)
  have h6: "1 < length (trackers sample_next)"
    by (simp add: sample_next_def)
  have h7: "trackers sample_next ! 1 = (2, (50, 50, 60, 60))"
    by (simp add: sample_next_def)
  have h8: "tracker_update sample (50, 50, 60, 60) () = ((50, 50, 60, 60), 1 / 2)"
    by (simp add: sample_def)
  note t = unmatched_tracks_coast[OF h1 h2 h3 h4 h5 h6 h7 h8]
  have v: "trackers sample_coast ! 1 = (2, (50, 50, 60, 60))"
    "foutput sample_coast =
       foutput sample_next @ [FaceRecord 3 1 0 0 10 10 (1 / 2), FaceRecord 3 2 50 50 60 60 (1 / 2)]"
    by (simp_all add: sample_next_def sample_coast_def)
  show ?thesis
    by (intro conjI h1 h2 h3 h4 h5 h6 h7 h8 t[THEN conjunct1] t[THEN conjunct2, THEN conjunct1] v)
qed

end
